theory Spec2Isabelle
  imports Complex_Main
begin

section \<open>The battle simulator of rts_sim.py\<close>

text \<open>
  The simulation engine of \<^verbatim>\<open>src/rts_sim.py\<close>: the two classes, the loading of the
  configuration in \<^verbatim>\<open>main\<close>, the scale of the window, and the fixed-timestep loop. The
  drawing and the event queue are left out: no quit event arrives, and \<^verbatim>\<open>main\<close> is followed
  up to the summary it prints. Python floats are modelled as the real numbers they
  approximate: infinities and NaN are not modelled, and the rounding of the doubles is
  modelled for the assignments of the attack alone, in \<open>attack_double\<close>.
\<close>

subsection \<open>Data model\<close>

text \<open>
  \<^verbatim>\<open>class UnitType\<close>. The fields other than \<open>max_health\<close> carry the prefix \<open>ut_\<close>,
  since \<^verbatim>\<open>class Unit\<close> has fields of the same names.
\<close>

record UnitType =
  max_health :: real
  ut_move_speed :: real
  ut_weapon_range :: real
  ut_weapon_damage :: real
  ut_weapon_cooldown :: real

text \<open>\<^verbatim>\<open>class Unit\<close>, with the fields that \<^verbatim>\<open>__init__\<close> assigns.\<close>

record Unit =
  type_name :: string
  team_name :: string
  x :: real
  y :: real
  health :: real
  move_speed :: real
  weapon_range :: real
  weapon_damage :: real
  weapon_cooldown :: real
  last_attack_time :: real

text \<open>
  \<^verbatim>\<open>Unit.__init__\<close>: \<^verbatim>\<open>unit_types_dict[type_name]\<close> raises KeyError on an unknown name,
  which is the value \<open>None\<close> here. The sentinel \<^verbatim>\<open>-1e9\<close> is \<open>- (10 ^ 9)\<close>.
\<close>

definition Unit_init :: "string \<Rightarrow> string \<Rightarrow> real \<Rightarrow> real \<Rightarrow> (string \<rightharpoonup> UnitType) \<Rightarrow> Unit option" where
  "Unit_init tname team px py unit_types_dict =
     (case unit_types_dict tname of
        None \<Rightarrow> None
      | Some ut \<Rightarrow> Some \<lparr>type_name = tname, team_name = team, x = px, y = py,
                         health = max_health ut,
                         move_speed = ut_move_speed ut,
                         weapon_range = ut_weapon_range ut,
                         weapon_damage = ut_weapon_damage ut,
                         weapon_cooldown = ut_weapon_cooldown ut,
                         last_attack_time = - (10 ^ 9)\<rparr>)"

definition is_alive :: "Unit \<Rightarrow> bool" where
  "is_alive u = (health u > 0)"

text \<open>\<^verbatim>\<open>math.hypot\<close> on two arguments.\<close>

definition hypot :: "real \<Rightarrow> real \<Rightarrow> real" where
  "hypot a b = sqrt (a\<^sup>2 + b\<^sup>2)"

definition distance_to :: "Unit \<Rightarrow> Unit \<Rightarrow> real" where
  "distance_to u other_unit =
     (let dx = x u - x other_unit; dy = y u - y other_unit in hypot dx dy)"

text \<open>\<^verbatim>\<open>Unit.move_toward_origin\<close>; the literal \<^verbatim>\<open>1e-6\<close> is \<open>1 / 10 ^ 6\<close>.\<close>

definition move_toward_origin :: "Unit \<Rightarrow> real \<Rightarrow> Unit" where
  "move_toward_origin u dt =
     (if \<bar>x u\<bar> < 1 / 10 ^ 6 \<and> \<bar>y u\<bar> < 1 / 10 ^ 6 then u
      else let dist = hypot (x u) (y u) in
        if dist < 1 / 10 ^ 6 then u
        else let step = move_speed u * dt in
          if step \<ge> dist then u\<lparr>x := 0, y := 0\<rparr>
          else let ratio = step / dist in
            u\<lparr>x := x u - x u * ratio, y := y u - y u * ratio\<rparr>)"

subsection \<open>Loading the configuration\<close>

text \<open>
  The parsed JSON document. An object whose keys the code iterates over is an
  association list in iteration order; the stats of a unit type are a map from field
  name to number; a team member is a record of its three fields, each absent or present.
\<close>

record member_raw =
  m_name :: "string option"
  m_x :: "real option"
  m_y :: "real option"

record config =
  units_raw :: "(string \<times> (string \<rightharpoonup> real)) list option"
  teams_raw :: "(string \<times> member_raw list) list option"

text \<open>
  The fatal errors of \<^verbatim>\<open>main\<close>, each printed and followed by \<^verbatim>\<open>sys.exit(1)\<close>. A missing
  field carries the field and then the unit type or team; an unknown unit type carries
  the type name and then the team. \<open>UncaughtKeyError\<close> is the KeyError that
  \<^verbatim>\<open>Unit.__init__\<close> would raise; the interpreter then exits with status 1 as well.
\<close>

datatype load_error =
    UnitsMissingOrEmpty
  | MissingTypeField string string
  | TeamsMissingOrEmpty
  | MissingMemberField string string
  | UnknownUnitType string string
  | UncaughtKeyError string

definition quoted :: "string \<Rightarrow> string" where
  "quoted s = [CHR 0x27] @ s @ [CHR 0x27]"

fun error_message :: "load_error \<Rightarrow> string" where
  "error_message UnitsMissingOrEmpty =
     ''ERROR: '' @ quoted ''units'' @ '' key is missing or empty.''"
| "error_message (MissingTypeField field tname) =
     ''ERROR: Missing field '' @ quoted field @ '' for unit type '' @ quoted tname"
| "error_message TeamsMissingOrEmpty =
     ''ERROR: '' @ quoted ''teams'' @ '' key is missing or empty.''"
| "error_message (MissingMemberField field team) =
     ''ERROR: Missing field '' @ quoted field @ '' for a member of team '' @ quoted team"
| "error_message (UnknownUnitType name team) =
     ''ERROR: Unknown unit type '' @ quoted name @ '' in team '' @ quoted team"
| "error_message (UncaughtKeyError k) = ''KeyError: '' @ quoted k"

definition exit_status :: "load_error \<Rightarrow> nat" where
  "exit_status e = 1"

text \<open>
  The call \<^verbatim>\<open>UnitType(health=stats["health"], ...)\<close>: the five subscripts are evaluated
  in the order written, and the first missing key raises the KeyError that is caught.
\<close>

definition UnitType_of_stats :: "(string \<rightharpoonup> real) \<Rightarrow> string + UnitType" where
  "UnitType_of_stats stats =
     (case stats ''health'' of None \<Rightarrow> Inl ''health'' | Some h \<Rightarrow>
     (case stats ''moveSpeed'' of None \<Rightarrow> Inl ''moveSpeed'' | Some ms \<Rightarrow>
     (case stats ''weaponRange'' of None \<Rightarrow> Inl ''weaponRange'' | Some wr \<Rightarrow>
     (case stats ''weaponDamage'' of None \<Rightarrow> Inl ''weaponDamage'' | Some wd \<Rightarrow>
     (case stats ''weaponCooldown'' of None \<Rightarrow> Inl ''weaponCooldown'' | Some wc \<Rightarrow>
        Inr \<lparr>max_health = h, ut_move_speed = ms, ut_weapon_range = wr,
             ut_weapon_damage = wd, ut_weapon_cooldown = wc\<rparr>)))))"

text \<open>The loop over \<^verbatim>\<open>unit_types_raw.items()\<close>.\<close>

fun parse_unit_types ::
  "(string \<times> (string \<rightharpoonup> real)) list \<Rightarrow> (string \<rightharpoonup> UnitType) \<Rightarrow> load_error + (string \<rightharpoonup> UnitType)" where
  "parse_unit_types [] unit_types = Inr unit_types"
| "parse_unit_types ((tname, stats) # rest) unit_types =
     (case UnitType_of_stats stats of
        Inl field \<Rightarrow> Inl (MissingTypeField field tname)
      | Inr ut \<Rightarrow> parse_unit_types rest (unit_types(tname \<mapsto> ut)))"

text \<open>The inner loop \<^verbatim>\<open>for member in members\<close>, appending to \<^verbatim>\<open>units\<close>.\<close>

fun load_members ::
  "string \<Rightarrow> member_raw list \<Rightarrow> (string \<rightharpoonup> UnitType) \<Rightarrow> Unit list \<Rightarrow> load_error + Unit list" where
  "load_members team [] unit_types us = Inr us"
| "load_members team (member # rest) unit_types us =
     (case m_name member of None \<Rightarrow> Inl (MissingMemberField ''name'' team) | Some name \<Rightarrow>
     (case m_x member of None \<Rightarrow> Inl (MissingMemberField ''x'' team) | Some px \<Rightarrow>
     (case m_y member of None \<Rightarrow> Inl (MissingMemberField ''y'' team) | Some py \<Rightarrow>
        (if unit_types name = None then Inl (UnknownUnitType name team)
         else (case Unit_init name team px py unit_types of
                 None \<Rightarrow> Inl (UncaughtKeyError name)
               | Some u \<Rightarrow> load_members team rest unit_types (us @ [u]))))))"

text \<open>The outer loop \<^verbatim>\<open>for team_name, members in teams_raw.items()\<close>.\<close>

fun load_teams ::
  "(string \<times> member_raw list) list \<Rightarrow> (string \<rightharpoonup> UnitType) \<Rightarrow> Unit list \<Rightarrow> load_error + Unit list" where
  "load_teams [] unit_types us = Inr us"
| "load_teams ((team, members) # rest) unit_types us =
     (case load_members team members unit_types us of
        Inl e \<Rightarrow> Inl e
      | Inr us' \<Rightarrow> load_teams rest unit_types us')"

text \<open>
  The configuration part of \<^verbatim>\<open>main\<close>, up to the list \<^verbatim>\<open>units\<close>. \<^verbatim>\<open>data.get(key, {})\<close>
  gives the empty object for a missing key, and \<^verbatim>\<open>not\<close> of an empty object is true.
\<close>

definition load :: "config \<Rightarrow> load_error + ((string \<rightharpoonup> UnitType) \<times> Unit list)" where
  "load data =
     (let unit_types_raw = (case units_raw data of None \<Rightarrow> [] | Some d \<Rightarrow> d) in
      if unit_types_raw = [] then Inl UnitsMissingOrEmpty
      else case parse_unit_types unit_types_raw Map.empty of
        Inl e \<Rightarrow> Inl e
      | Inr unit_types \<Rightarrow>
          (let teams = (case teams_raw data of None \<Rightarrow> [] | Some d \<Rightarrow> d) in
           if teams = [] then Inl TeamsMissingOrEmpty
           else case load_teams teams unit_types [] of
             Inl e \<Rightarrow> Inl e
           | Inr us \<Rightarrow> Inr (unit_types, us)))"

subsection \<open>The simulation loop\<close>

text \<open>
  The variables of \<^verbatim>\<open>main\<close> that the loop reads and writes. The list \<open>units\<close> is the
  store of the unit objects: an object is named by its index, and \<^verbatim>\<open>alive_units\<close> is a
  list of such indices, so that a change made to a unit through one list is seen through
  the other, as in Python. \<open>damage_stats\<close> is the \<^verbatim>\<open>defaultdict(float)\<close>, an association
  list in insertion order. \<open>winner\<close> is unbound in Python until the loop ends; here it
  starts as \<open>None\<close>.
\<close>

record sim_state =
  units :: "Unit list"
  damage_stats :: "(string \<times> real) list"
  frame_counter :: nat
  simulation_running :: bool
  winner :: "string option"

definition initial_state :: "Unit list \<Rightarrow> sim_state" where
  "initial_state us =
     \<lparr>units = us, damage_stats = [], frame_counter = 0, simulation_running = True,
      winner = None\<rparr>"

definition FIXED_DT :: real where
  "FIXED_DT = 1 / 60"

text \<open>\<^verbatim>\<open>damage_stats[k] += d\<close> on the defaultdict: a missing key starts at \<^verbatim>\<open>0.0\<close>.\<close>

fun dd_add :: "string \<Rightarrow> real \<Rightarrow> (string \<times> real) list \<Rightarrow> (string \<times> real) list" where
  "dd_add k d [] = [(k, 0 + d)]"
| "dd_add k d ((k', v) # kvs) =
     (if k' = k then (k', v + d) # kvs else (k', v) # dd_add k d kvs)"


text \<open>
  The scan \<^verbatim>\<open>for other in alive_units\<close> of one unit \<open>u\<close>. The two variables
  \<^verbatim>\<open>nearest_enemy\<close> and \<^verbatim>\<open>nearest_dist\<close> are one optional pair: \<open>None\<close> is the start,
  \<^verbatim>\<open>None\<close> with \<^verbatim>\<open>float("inf")\<close>, below which every distance lies.
\<close>

fun nearest_scan :: "Unit list \<Rightarrow> Unit \<Rightarrow> nat list \<Rightarrow> (nat \<times> real) option \<Rightarrow> (nat \<times> real) option" where
  "nearest_scan us u [] nearest = nearest"
| "nearest_scan us u (other # rest) nearest =
     (if team_name (us ! other) = team_name u then nearest_scan us u rest nearest
      else let d = distance_to u (us ! other) in
        if (case nearest of None \<Rightarrow> True | Some (_, nearest_dist) \<Rightarrow> d < nearest_dist)
        then nearest_scan us u rest (Some (other, d))
        else nearest_scan us u rest nearest)"

text \<open>The three assignments of the attack, for the unit at index \<open>i\<close>.\<close>

definition attack :: "nat \<Rightarrow> nat \<Rightarrow> real \<Rightarrow> sim_state \<Rightarrow> sim_state" where
  "attack i nearest_enemy current_time s =
     (let u = units s ! i;
          target = units s ! nearest_enemy;
          us1 = (units s)[nearest_enemy := target\<lparr>health := health target - weapon_damage u\<rparr>];
          ds1 = dd_add (type_name u) (weapon_damage u) (damage_stats s);
          us2 = us1[i := (us1 ! i)\<lparr>last_attack_time := current_time\<rparr>]
      in s\<lparr>units := us2, damage_stats := ds1\<rparr>)"





text \<open>The body of \<^verbatim>\<open>for u in alive_units\<close>, for the unit at index \<open>i\<close>.\<close>

definition unit_turn :: "real \<Rightarrow> real \<Rightarrow> nat list \<Rightarrow> nat \<Rightarrow> sim_state \<Rightarrow> sim_state" where
  "unit_turn dt current_time alive_units i s =
     (let u = units s ! i in
      if \<not> is_alive u then s
      else case nearest_scan (units s) u alive_units None of
        Some (nearest_enemy, nearest_dist) \<Rightarrow>
          if nearest_dist \<le> weapon_range u then
            (if current_time - last_attack_time u \<ge> weapon_cooldown u
             then attack i nearest_enemy current_time s
             else s)
          else s\<lparr>units := (units s)[i := move_toward_origin u dt]\<rparr>
      | None \<Rightarrow> s\<lparr>units := (units s)[i := move_toward_origin u dt]\<rparr>)"

text \<open>The else branch of the termination check: every unit of the snapshot in turn.\<close>

definition combat_resolver :: "real \<Rightarrow> real \<Rightarrow> nat list \<Rightarrow> sim_state \<Rightarrow> sim_state" where
  "combat_resolver dt current_time alive_units s =
     fold (unit_turn dt current_time alive_units) alive_units s"

text \<open>
  One iteration of \<^verbatim>\<open>while simulation_running\<close>. The set \<^verbatim>\<open>teams_still_alive\<close> is a list
  without duplicates; \<^verbatim>\<open>next(iter(...))\<close> is taken only when it has at most one element.
\<close>

definition alive_snapshot :: "Unit list \<Rightarrow> nat list" where
  "alive_snapshot us = filter (\<lambda>i. is_alive (us ! i)) [0..<length us]"

definition tick :: "sim_state \<Rightarrow> sim_state" where
  "tick s =
     (let dt = FIXED_DT;
          current_time = real (frame_counter s) * FIXED_DT;
          s1 = s\<lparr>frame_counter := frame_counter s + 1\<rparr>;
          alive_units = alive_snapshot (units s1);
          teams_still_alive = remdups (map (\<lambda>i. team_name (units s1 ! i)) alive_units)
      in if length teams_still_alive \<le> 1
         then s1\<lparr>simulation_running := False,
                 winner := (case teams_still_alive of [] \<Rightarrow> None | t # _ \<Rightarrow> Some t)\<rparr>
         else combat_resolver dt current_time alive_units s1)"

text \<open>
  The loop itself, with the \<^verbatim>\<open>break\<close> at the end of its body. A run that never leaves
  the loop is the value \<open>None\<close>.
\<close>

partial_function (option) main_loop :: "sim_state \<Rightarrow> sim_state option" where
  "main_loop s =
     (if simulation_running s
      then (let s' = tick s in if \<not> simulation_running s' then Some s' else main_loop s')
      else Some s)"

text \<open>The state after at most \<open>n\<close> iterations of the loop.\<close>

fun run_ticks :: "nat \<Rightarrow> sim_state \<Rightarrow> sim_state" where
  "run_ticks 0 s = s"
| "run_ticks (Suc n) s = (if simulation_running s then run_ticks n (tick s) else s)"

text \<open>
  \<^verbatim>\<open>main\<close> from the parsed document to the summary: loading, the scale of the window
  (\<^verbatim>\<open>(WINDOW_SIZE / 2) / world_extent\<close> raises ZeroDivisionError when every unit is at
  the origin or there is none), then the loop. The result is the winner and the damage
  table that the summary prints.
\<close>

datatype outcome =
    LoadFailed load_error
  | ZeroDivisionError
  | Summary "string option" "(string \<times> real) list"

definition world_extent :: "Unit list \<Rightarrow> real" where
  "world_extent us =
     (let max_abs = fold (\<lambda>u max_abs. max (max max_abs \<bar>x u\<bar>) \<bar>y u\<bar>) us 0;
          padding = (1 / 10) * max_abs
      in max_abs + padding)"

definition main :: "config \<Rightarrow> outcome option" where
  "main data =
     (case load data of
        Inl e \<Rightarrow> Some (LoadFailed e)
      | Inr (unit_types, us) \<Rightarrow>
          if world_extent us = 0 then Some ZeroDivisionError
          else map_option (\<lambda>s. Summary (winner s) (damage_stats s))
                 (main_loop (initial_state us)))"

subsection \<open>Example inputs\<close>

text \<open>A unit half a micro-unit away from the origin, inside the epsilon of the movement.\<close>

definition near_origin_unit :: Unit where
  "near_origin_unit =
     \<lparr>type_name = ''soldier'', team_name = ''red'', x = 1 / (2 * 10 ^ 6), y = 0,
      health = 10, move_speed = 1, weapon_range = 5, weapon_damage = 10,
      weapon_cooldown = 1, last_attack_time = - (10 ^ 9)\<rparr>"

text \<open>A registry with an ordinary type and one whose cooldown is twice the sentinel.\<close>

definition example_types :: "string \<rightharpoonup> UnitType" where
  "example_types =
     [''soldier'' \<mapsto> \<lparr>max_health = 10, ut_move_speed = 1, ut_weapon_range = 5,
                        ut_weapon_damage = 10, ut_weapon_cooldown = 1\<rparr>,
      ''siege'' \<mapsto> \<lparr>max_health = 10, ut_move_speed = 1, ut_weapon_range = 5,
                      ut_weapon_damage = 10, ut_weapon_cooldown = 2 * 10 ^ 9\<rparr>]"

text \<open>
  Three soldiers on the horizontal axis: a red one at the origin and two blue ones at equal
  distance 3 on either side of it.
\<close>

definition tie_units :: "Unit list" where
  "tie_units =
     [\<lparr>type_name = ''soldier'', team_name = ''red'', x = 0, y = 0,
       health = 10, move_speed = 1, weapon_range = 5, weapon_damage = 10,
       weapon_cooldown = 1, last_attack_time = - (10 ^ 9)\<rparr>,
      \<lparr>type_name = ''soldier'', team_name = ''blue'', x = 3, y = 0,
       health = 10, move_speed = 1, weapon_range = 5, weapon_damage = 10,
       weapon_cooldown = 1, last_attack_time = - (10 ^ 9)\<rparr>,
      \<lparr>type_name = ''soldier'', team_name = ''blue'', x = - 3, y = 0,
       health = 10, move_speed = 1, weapon_range = 5, weapon_damage = 10,
       weapon_cooldown = 1, last_attack_time = - (10 ^ 9)\<rparr>]"

text \<open>A red soldier at the origin and a blue archer within its range, of health 10.\<close>

definition duel_units :: "Unit list" where
  "duel_units =
     [\<lparr>type_name = ''soldier'', team_name = ''red'', x = 0, y = 0,
       health = 10, move_speed = 1, weapon_range = 5, weapon_damage = 10,
       weapon_cooldown = 1, last_attack_time = - (10 ^ 9)\<rparr>,
      \<lparr>type_name = ''archer'', team_name = ''blue'', x = 3, y = 0,
       health = 10, move_speed = 1, weapon_range = 5, weapon_damage = 4,
       weapon_cooldown = 1, last_attack_time = - (10 ^ 9)\<rparr>]"

text \<open>
  A red soldier at \<open>(10, 0)\<close>, a blue archer within its range at \<open>(6, 0)\<close> and a second
  blue archer far away at \<open>(-100, 0)\<close>.
\<close>

definition chase_units :: "Unit list" where
  "chase_units =
     [\<lparr>type_name = ''soldier'', team_name = ''red'', x = 10, y = 0,
       health = 10, move_speed = 1, weapon_range = 5, weapon_damage = 10,
       weapon_cooldown = 1, last_attack_time = - (10 ^ 9)\<rparr>,
      \<lparr>type_name = ''archer'', team_name = ''blue'', x = 6, y = 0,
       health = 10, move_speed = 1, weapon_range = 5, weapon_damage = 4,
       weapon_cooldown = 1, last_attack_time = - (10 ^ 9)\<rparr>,
      \<lparr>type_name = ''archer'', team_name = ''blue'', x = - 100, y = 0,
       health = 10, move_speed = 1, weapon_range = 5, weapon_damage = 4,
       weapon_cooldown = 1, last_attack_time = - (10 ^ 9)\<rparr>]"

text \<open>
  A configuration whose team \<open>red\<close> has a first member without the field \<open>y\<close> and a
  second, complete member of the unregistered type \<open>ghost\<close>.
\<close>

definition soldier_stats :: "string \<rightharpoonup> real" where
  "soldier_stats =
     [''health'' \<mapsto> 10, ''moveSpeed'' \<mapsto> 1, ''weaponRange'' \<mapsto> 5,
      ''weaponDamage'' \<mapsto> 10, ''weaponCooldown'' \<mapsto> 1]"

definition archer_stats :: "string \<rightharpoonup> real" where
  "archer_stats =
     [''health'' \<mapsto> 10, ''moveSpeed'' \<mapsto> 1, ''weaponRange'' \<mapsto> 5,
      ''weaponDamage'' \<mapsto> 4, ''weaponCooldown'' \<mapsto> 1]"

definition ghost_config :: config where
  "ghost_config =
     \<lparr>units_raw = Some [(''soldier'', soldier_stats)],
      teams_raw = Some
        [(''red'', [\<lparr>m_name = Some ''soldier'', m_x = Some 0, m_y = None\<rparr>,
                   \<lparr>m_name = Some ''ghost'', m_x = Some 1, m_y = Some 1\<rparr>]),
         (''blue'', [\<lparr>m_name = Some ''soldier'', m_x = Some 3, m_y = Some 0\<rparr>])]\<rparr>"

text \<open>The same with the first member complete.\<close>

definition ghost_config2 :: config where
  "ghost_config2 =
     \<lparr>units_raw = Some [(''soldier'', soldier_stats)],
      teams_raw = Some
        [(''blue'', [\<lparr>m_name = Some ''soldier'', m_x = Some 3, m_y = Some 0\<rparr>]),
         (''red'', [\<lparr>m_name = Some ''soldier'', m_x = Some 0, m_y = Some 0\<rparr>,
                   \<lparr>m_name = Some ''ghost'', m_x = Some 1, m_y = Some 1\<rparr>])]\<rparr>"

text \<open>The configuration of the duel.\<close>

definition duel_config :: config where
  "duel_config =
     \<lparr>units_raw = Some [(''soldier'', soldier_stats), (''archer'', archer_stats)],
      teams_raw = Some
        [(''red'', [\<lparr>m_name = Some ''soldier'', m_x = Some 0, m_y = Some 0\<rparr>]),
         (''blue'', [\<lparr>m_name = Some ''archer'', m_x = Some 3, m_y = Some 0\<rparr>])]\<rparr>"

text \<open>
  A valid configuration of two teams whose units rest inside the epsilon of the origin,
  at distance \<open>10\<^sup>-\<^sup>6\<close> from each other, with a weapon range of \<open>10\<^sup>-\<^sup>7\<close>.
\<close>

definition sniper_stats :: "string \<rightharpoonup> real" where
  "sniper_stats =
     [''health'' \<mapsto> 10, ''moveSpeed'' \<mapsto> 1, ''weaponRange'' \<mapsto> 1 / 10 ^ 7,
      ''weaponDamage'' \<mapsto> 10, ''weaponCooldown'' \<mapsto> 1]"

definition stuck_config :: config where
  "stuck_config =
     \<lparr>units_raw = Some [(''sniper'', sniper_stats)],
      teams_raw = Some
        [(''red'', [\<lparr>m_name = Some ''sniper'', m_x = Some (1 / (2 * 10 ^ 6)), m_y = Some 0\<rparr>]),
         (''blue'', [\<lparr>m_name = Some ''sniper'', m_x = Some (- (1 / (2 * 10 ^ 6))), m_y = Some 0\<rparr>])]\<rparr>"

definition stuck_units :: "Unit list" where
  "stuck_units =
     [\<lparr>type_name = ''sniper'', team_name = ''red'', x = 1 / (2 * 10 ^ 6), y = 0,
       health = 10, move_speed = 1, weapon_range = 1 / 10 ^ 7, weapon_damage = 10,
       weapon_cooldown = 1, last_attack_time = - (10 ^ 9)\<rparr>,
      \<lparr>type_name = ''sniper'', team_name = ''blue'', x = - (1 / (2 * 10 ^ 6)), y = 0,
       health = 10, move_speed = 1, weapon_range = 1 / 10 ^ 7, weapon_damage = 10,
       weapon_cooldown = 1, last_attack_time = - (10 ^ 9)\<rparr>]"

text \<open>The state of that simulation at the start of the tick \<open>n\<close>.\<close>

definition stuck_state :: "nat \<Rightarrow> sim_state" where
  "stuck_state n =
     \<lparr>units = stuck_units, damage_stats = [], frame_counter = n, simulation_running = True,
      winner = None\<rparr>"




subsection \<open>Notions used in the properties\<close>

text \<open>The fields of a unit that no statement of the loop assigns.\<close>

definition stats_unchanged :: "Unit \<Rightarrow> Unit \<Rightarrow> bool" where
  "stats_unchanged u v \<longleftrightarrow>
     type_name v = type_name u \<and> team_name v = team_name u \<and>
     move_speed v = move_speed u \<and> weapon_range v = weapon_range u \<and>
     weapon_damage v = weapon_damage u \<and> weapon_cooldown v = weapon_cooldown u"

text \<open>A team member that the loading loop accepts: its three fields are present and its
  type is registered.\<close>

definition member_ok :: "(string \<rightharpoonup> UnitType) \<Rightarrow> member_raw \<Rightarrow> bool" where
  "member_ok unit_types m \<longleftrightarrow>
     (case m_name m of None \<Rightarrow> False | Some name \<Rightarrow> unit_types name \<noteq> None) \<and>
     m_x m \<noteq> None \<and> m_y m \<noteq> None"

text \<open>A unit as \<^verbatim>\<open>Unit.__init__\<close> leaves it, for the registry it was built from.\<close>

definition fresh_from :: "(string \<rightharpoonup> UnitType) \<Rightarrow> Unit \<Rightarrow> bool" where
  "fresh_from unit_types u \<longleftrightarrow>
     (case unit_types (type_name u) of
        None \<Rightarrow> False
      | Some ut \<Rightarrow> health u = max_health ut \<and> move_speed u = ut_move_speed ut \<and>
          weapon_range u = ut_weapon_range ut \<and> weapon_damage u = ut_weapon_damage ut \<and>
          weapon_cooldown u = ut_weapon_cooldown ut \<and> last_attack_time u = - (10 ^ 9))"

text \<open>The square around the origin inside which \<^verbatim>\<open>move_toward_origin\<close> does nothing.\<close>

definition in_box :: "Unit \<Rightarrow> bool" where
  "in_box u \<longleftrightarrow> \<bar>x u\<bar> < 1 / 10 ^ 6 \<and> \<bar>y u\<bar> < 1 / 10 ^ 6"

text \<open>
  Three bounds on what a unit can still do: the number of attacks of damage at least
  \<open>\<delta>\<close> that its health survives, the number of ticks from tick \<open>n\<close> until its cooldown
  has elapsed, and the number of moves until it is inside the square.
\<close>

definition hits_left :: "real \<Rightarrow> Unit \<Rightarrow> nat" where
  "hits_left \<delta> u = nat \<lceil>health u / \<delta>\<rceil>"

definition wait_left :: "nat \<Rightarrow> Unit \<Rightarrow> nat" where
  "wait_left n u = nat \<lceil>(last_attack_time u + weapon_cooldown u) * 60\<rceil> - n"

definition steps_left :: "Unit \<Rightarrow> nat" where
  "steps_left u =
     (if in_box u then 0 else nat \<lceil>hypot (x u) (y u) / (move_speed u * FIXED_DT)\<rceil> + 1)"

text \<open>The three bounds summed over the units, ordered lexicographically.\<close>

definition progress :: "real \<Rightarrow> sim_state \<Rightarrow> nat \<times> nat \<times> nat" where
  "progress \<delta> s =
     (\<Sum>i<length (units s). hits_left \<delta> (units s ! i),
      \<Sum>i<length (units s). wait_left (frame_counter s) (units s ! i),
      \<Sum>i<length (units s). steps_left (units s ! i))"

text \<open>Units whose weapon damage is at least \<open>\<delta> > 0\<close> and whose speed is positive.\<close>

definition battle_ready :: "real \<Rightarrow> Unit list \<Rightarrow> bool" where
  "battle_ready \<delta> us \<longleftrightarrow>
     0 < \<delta> \<and> (\<forall>u\<in>set us. \<delta> \<le> weapon_damage u \<and> 0 < move_speed u)"

text \<open>
  Units whose weapon range is at least \<open>3 \<cdot> 10\<^sup>-\<^sup>6\<close>, more than the diagonal of the
  square.
\<close>

definition long_reach :: "Unit list \<Rightarrow> bool" where
  "long_reach us \<longleftrightarrow> (\<forall>u\<in>set us. 3 / 10 ^ 6 \<le> weapon_range u)"

text \<open>The number of teams that have a living unit.\<close>

definition teams_alive :: "Unit list \<Rightarrow> nat" where
  "teams_alive us = card (team_name ` {u \<in> set us. is_alive u})"


section \<open>Properties\<close>

subsection \<open>Distances and the movement toward the origin\<close>

lemma hypot_zero_right: "hypot a 0 = \<bar>a\<bar>"
  by (simp add: hypot_def)

lemma hypot_nonneg: "0 \<le> hypot a b"
  by (simp add: hypot_def)

lemma hypot_ge_left: "\<bar>a\<bar> \<le> hypot a b"
  unfolding hypot_def by (rule real_le_rsqrt) simp

lemma hypot_ge_right: "\<bar>b\<bar> \<le> hypot a b"
  unfolding hypot_def by (rule real_le_rsqrt) simp

lemma hypot_scale: "hypot (a * c) (b * c) = hypot a b * \<bar>c\<bar>"
proof -
  have "(a * c)\<^sup>2 + (b * c)\<^sup>2 = (a\<^sup>2 + b\<^sup>2) * c\<^sup>2"
    by (simp add: power_mult_distrib distrib_right)
  then show ?thesis
    by (simp add: hypot_def real_sqrt_mult)
qed

lemma move_inside_box:
  "\<bar>x u\<bar> < 1 / 10 ^ 6 \<Longrightarrow> \<bar>y u\<bar> < 1 / 10 ^ 6 \<Longrightarrow> move_toward_origin u dt = u"
  by (simp add: move_toward_origin_def)

lemma outside_box_dist:
  assumes "\<not> (\<bar>x u\<bar> < 1 / 10 ^ 6 \<and> \<bar>y u\<bar> < 1 / 10 ^ 6)"
  shows "1 / 10 ^ 6 \<le> hypot (x u) (y u)"
  using assms hypot_ge_left [of "x u" "y u"] hypot_ge_right [of "y u" "x u"]
  by linarith

lemma move_snap:
  assumes "\<not> (\<bar>x u\<bar> < 1 / 10 ^ 6 \<and> \<bar>y u\<bar> < 1 / 10 ^ 6)"
    and "hypot (x u) (y u) \<le> move_speed u * dt"
  shows "move_toward_origin u dt = u\<lparr>x := 0, y := 0\<rparr>"
  using assms outside_box_dist [OF assms(1)]
  by (auto simp: move_toward_origin_def Let_def)

lemma move_partial:
  assumes "\<not> (\<bar>x u\<bar> < 1 / 10 ^ 6 \<and> \<bar>y u\<bar> < 1 / 10 ^ 6)"
    and "move_speed u * dt < hypot (x u) (y u)"
  shows "hypot (x (move_toward_origin u dt)) (y (move_toward_origin u dt)) =
         hypot (x u) (y u) - move_speed u * dt"
proof -
  define dist where "dist = hypot (x u) (y u)"
  define ratio where "ratio = move_speed u * dt / dist"
  have dpos: "0 < dist"
    using outside_box_dist [OF assms(1)] by (simp add: dist_def)
  have r1: "ratio < 1"
    using assms(2) dpos by (simp add: ratio_def dist_def)
  have mv: "move_toward_origin u dt = u\<lparr>x := x u - x u * ratio, y := y u - y u * ratio\<rparr>"
    using assms outside_box_dist [OF assms(1)]
    by (auto simp: move_toward_origin_def Let_def ratio_def dist_def)
  have "hypot (x u - x u * ratio) (y u - y u * ratio) =
        hypot (x u * (1 - ratio)) (y u * (1 - ratio))"
    by (simp add: algebra_simps)
  also have "\<dots> = dist * \<bar>1 - ratio\<bar>"
    by (simp add: hypot_scale dist_def)
  also have "\<dots> = dist * (1 - ratio)"
    using r1 by simp
  also have "\<dots> = dist - move_speed u * dt"
    using dpos by (simp add: ratio_def algebra_simps)
  finally show ?thesis
    by (simp add: mv dist_def)
qed

text \<open>
  C3, as amended. A unit whose two coordinates are both below \<open>10\<^sup>-\<^sup>6\<close> in absolute value
  stays where it is, so its distance from the origin is unchanged. Any other unit ends at
  distance \<open>max 0 (d - move_speed * dt)\<close> from the origin, where \<open>d\<close> is its distance
  before the move, and a step of at least \<open>d\<close> puts it exactly on \<open>(0, 0)\<close>.
\<close>

theorem move_toward_origin_distance:
  "(\<bar>x u\<bar> < 1 / 10 ^ 6 \<and> \<bar>y u\<bar> < 1 / 10 ^ 6 \<longrightarrow> move_toward_origin u dt = u) \<and>
   (\<not> (\<bar>x u\<bar> < 1 / 10 ^ 6 \<and> \<bar>y u\<bar> < 1 / 10 ^ 6) \<longrightarrow>
      hypot (x (move_toward_origin u dt)) (y (move_toward_origin u dt)) =
        max 0 (hypot (x u) (y u) - move_speed u * dt) \<and>
      (hypot (x u) (y u) \<le> move_speed u * dt \<longrightarrow>
         x (move_toward_origin u dt) = 0 \<and> y (move_toward_origin u dt) = 0))"
proof (intro conjI impI)
  assume "\<bar>x u\<bar> < 1 / 10 ^ 6 \<and> \<bar>y u\<bar> < 1 / 10 ^ 6"
  then show "move_toward_origin u dt = u"
    by (simp add: move_inside_box)
next
  assume out: "\<not> (\<bar>x u\<bar> < 1 / 10 ^ 6 \<and> \<bar>y u\<bar> < 1 / 10 ^ 6)"
  show "hypot (x (move_toward_origin u dt)) (y (move_toward_origin u dt)) =
        max 0 (hypot (x u) (y u) - move_speed u * dt)"
  proof (cases "hypot (x u) (y u) \<le> move_speed u * dt")
    case True
    then show ?thesis
      by (simp add: move_snap [OF out True] hypot_zero_right)
  next
    case False
    then have lt: "move_speed u * dt < hypot (x u) (y u)" by simp
    show ?thesis
      using lt by (simp add: move_partial [OF out lt])
  qed
next
  assume out: "\<not> (\<bar>x u\<bar> < 1 / 10 ^ 6 \<and> \<bar>y u\<bar> < 1 / 10 ^ 6)"
    and le: "hypot (x u) (y u) \<le> move_speed u * dt"
  show "x (move_toward_origin u dt) = 0" "y (move_toward_origin u dt) = 0"
    by (simp_all add: move_snap [OF out le])
qed

text \<open>
  The three cases at concrete units: a step of \<open>1/60\<close> from distance 3, a unit inside the
  epsilon, and a step of 4 from distance 3.
\<close>

theorem move_toward_origin_distance_witness:
  "hypot (x (move_toward_origin (near_origin_unit\<lparr>x := 3\<rparr>) FIXED_DT))
         (y (move_toward_origin (near_origin_unit\<lparr>x := 3\<rparr>) FIXED_DT)) = 3 - 1 / 60 \<and>
   move_toward_origin near_origin_unit FIXED_DT = near_origin_unit \<and>
   x (move_toward_origin (near_origin_unit\<lparr>x := 3\<rparr>) 4) = 0"
  using move_toward_origin_distance [of "near_origin_unit\<lparr>x := 3\<rparr>" FIXED_DT]
    move_toward_origin_distance [of near_origin_unit FIXED_DT]
    move_toward_origin_distance [of "near_origin_unit\<lparr>x := 3\<rparr>" 4]
  by (simp add: near_origin_unit_def FIXED_DT_def hypot_zero_right)

text \<open>
  C3 as stated fails inside the epsilon: the unit at \<open>(5 \<cdot> 10\<^sup>-\<^sup>7, 0)\<close> with speed 1 keeps
  its distance \<open>5 \<cdot> 10\<^sup>-\<^sup>7\<close>, while \<open>max 0 (d - move_speed * dt)\<close> is 0.
\<close>

theorem move_within_epsilon_counterexample:
  "hypot (x (move_toward_origin near_origin_unit FIXED_DT))
         (y (move_toward_origin near_origin_unit FIXED_DT)) \<noteq>
   max 0 (hypot (x near_origin_unit) (y near_origin_unit)
            - move_speed near_origin_unit * FIXED_DT)"
  by (simp add: near_origin_unit_def move_toward_origin_def FIXED_DT_def hypot_zero_right)

subsection \<open>The cooldown sentinel of a fresh unit\<close>

text \<open>
  C7, as amended. A freshly constructed unit has \<open>last_attack_time = -10\<^sup>9\<close>, so at a time
  \<open>t\<close> the cooldown check passes exactly when \<open>weapon_cooldown \<le> t + 10\<^sup>9\<close>; at any
  \<open>t \<ge> 0\<close> it passes for every cooldown of at most \<open>10\<^sup>9\<close>.
\<close>

theorem fresh_unit_cooldown:
  assumes "Unit_init tname team px py unit_types = Some u"
  shows "last_attack_time u = - (10 ^ 9) \<and>
         (t - last_attack_time u \<ge> weapon_cooldown u) = (weapon_cooldown u \<le> t + 10 ^ 9) \<and>
         (0 \<le> t \<and> weapon_cooldown u \<le> 10 ^ 9 \<longrightarrow> t - last_attack_time u \<ge> weapon_cooldown u)"
proof -
  have "last_attack_time u = - (10 ^ 9)"
    using assms by (auto simp: Unit_init_def split: option.splits)
  then show ?thesis by auto
qed

theorem fresh_unit_cooldown_witness:
  "Unit_init ''soldier'' ''red'' 3 0 example_types \<noteq> None \<and>
   0 - last_attack_time (the (Unit_init ''soldier'' ''red'' 3 0 example_types))
     \<ge> weapon_cooldown (the (Unit_init ''soldier'' ''red'' 3 0 example_types))"
proof -
  have init: "Unit_init ''soldier'' ''red'' 3 0 example_types =
      Some (the (Unit_init ''soldier'' ''red'' 3 0 example_types))"
    by (simp add: Unit_init_def example_types_def)
  show ?thesis
    using fresh_unit_cooldown [OF init, of 0]
    by (simp add: Unit_init_def example_types_def)
qed

text \<open>
  C7 as stated fails for a cooldown above the sentinel: a fresh unit of cooldown
  \<open>2 \<cdot> 10\<^sup>9\<close> is blocked at time 0.
\<close>

theorem fresh_unit_blocked_counterexample:
  "Unit_init ''siege'' ''red'' 3 0 example_types \<noteq> None \<and>
   \<not> (0 - last_attack_time (the (Unit_init ''siege'' ''red'' 3 0 example_types))
        \<ge> weapon_cooldown (the (Unit_init ''siege'' ''red'' 3 0 example_types)))"
  by (simp add: Unit_init_def example_types_def)

subsection \<open>Targeting\<close>

text \<open>
  The scan from an accumulator: either the accumulator is returned, and no enemy of the
  list is closer than it, or an enemy of the list replaces it, strictly closer than the
  accumulator and than every enemy before it, and at least as close as every enemy after.
\<close>

lemma nearest_scan_acc:
  "nearest_scan us u js acc = r \<Longrightarrow>
   (r = acc \<and>
      (\<forall>k\<in>set js. team_name (us ! k) \<noteq> team_name u \<longrightarrow>
         (case acc of None \<Rightarrow> False | Some (_, d0) \<Rightarrow> d0 \<le> distance_to u (us ! k)))) \<or>
   (\<exists>pre j post. js = pre @ j # post \<and> r = Some (j, distance_to u (us ! j)) \<and>
      team_name (us ! j) \<noteq> team_name u \<and>
      (case acc of None \<Rightarrow> True | Some (_, d0) \<Rightarrow> distance_to u (us ! j) < d0) \<and>
      (\<forall>k\<in>set pre. team_name (us ! k) \<noteq> team_name u \<longrightarrow>
         distance_to u (us ! j) < distance_to u (us ! k)) \<and>
      (\<forall>k\<in>set post. team_name (us ! k) \<noteq> team_name u \<longrightarrow>
         distance_to u (us ! j) \<le> distance_to u (us ! k)))"
  (is "_ \<Longrightarrow> ?kept js acc r \<or> ?replaced js acc r")
proof (induction js arbitrary: acc)
  case Nil
  then show ?case by simp
next
  case (Cons other rest)
  let ?d = "distance_to u (us ! other)"
  show ?case
  proof (cases "team_name (us ! other) = team_name u")
    case True
    with Cons.prems have "nearest_scan us u rest acc = r" by simp
    from Cons.IH [OF this] show ?thesis
    proof
      assume "?kept rest acc r"
      with True show ?thesis by simp
    next
      assume "?replaced rest acc r"
      then obtain pre j post where h: "rest = pre @ j # post" "r = Some (j, distance_to u (us ! j))"
        "team_name (us ! j) \<noteq> team_name u"
        "(case acc of None \<Rightarrow> True | Some (_, d0) \<Rightarrow> distance_to u (us ! j) < d0)"
        "\<forall>k\<in>set pre. team_name (us ! k) \<noteq> team_name u \<longrightarrow>
           distance_to u (us ! j) < distance_to u (us ! k)"
        "\<forall>k\<in>set post. team_name (us ! k) \<noteq> team_name u \<longrightarrow>
           distance_to u (us ! j) \<le> distance_to u (us ! k)"
        by blast
      have "other # rest = (other # pre) @ j # post" using h(1) by simp
      moreover have "\<forall>k\<in>set (other # pre). team_name (us ! k) \<noteq> team_name u \<longrightarrow>
           distance_to u (us ! j) < distance_to u (us ! k)"
        using h(5) True by simp
      ultimately show ?thesis using h(2,3,4,6) by blast
    qed
  next
    case enemy: False
    show ?thesis
    proof (cases "case acc of None \<Rightarrow> True | Some (_, nearest_dist) \<Rightarrow> ?d < nearest_dist")
      case better: True
      with enemy Cons.prems have "nearest_scan us u rest (Some (other, ?d)) = r"
        by (simp add: Let_def)
      from Cons.IH [OF this] show ?thesis
      proof
        assume "?kept rest (Some (other, ?d)) r"
        then have "other # rest = [] @ other # rest" "r = Some (other, ?d)"
          "\<forall>k\<in>set rest. team_name (us ! k) \<noteq> team_name u \<longrightarrow> ?d \<le> distance_to u (us ! k)"
          by simp_all
        with enemy better have "?replaced (other # rest) acc r"
          by (intro exI [of _ "[]"] exI [of _ other] exI [of _ rest]) simp
        then show ?thesis ..
      next
        assume "?replaced rest (Some (other, ?d)) r"
        then obtain pre j post where h: "rest = pre @ j # post" "r = Some (j, distance_to u (us ! j))"
          "team_name (us ! j) \<noteq> team_name u"
          "distance_to u (us ! j) < ?d"
          "\<forall>k\<in>set pre. team_name (us ! k) \<noteq> team_name u \<longrightarrow>
             distance_to u (us ! j) < distance_to u (us ! k)"
          "\<forall>k\<in>set post. team_name (us ! k) \<noteq> team_name u \<longrightarrow>
             distance_to u (us ! j) \<le> distance_to u (us ! k)"
          by auto
        have 1: "other # rest = (other # pre) @ j # post" using h(1) by simp
        have 2: "\<forall>k\<in>set (other # pre). team_name (us ! k) \<noteq> team_name u \<longrightarrow>
             distance_to u (us ! j) < distance_to u (us ! k)"
          using h(4,5) by simp
        have 3: "case acc of None \<Rightarrow> True | Some (_, d0) \<Rightarrow> distance_to u (us ! j) < d0"
          using better h(4) by (auto split: option.splits)
        show ?thesis using 1 2 3 h(2,3,6) by blast
      qed
    next
      case worse: False
      then obtain j0 d0 where acc: "acc = Some (j0, d0)" and le: "d0 \<le> ?d"
        by (auto split: option.splits)
      from worse enemy Cons.prems have "nearest_scan us u rest acc = r"
        by (simp add: Let_def)
      from Cons.IH [OF this] show ?thesis
      proof
        assume "?kept rest acc r"
        with acc le show ?thesis by simp
      next
        assume "?replaced rest acc r"
        then obtain pre j post where h: "rest = pre @ j # post" "r = Some (j, distance_to u (us ! j))"
          "team_name (us ! j) \<noteq> team_name u"
          "distance_to u (us ! j) < d0"
          "\<forall>k\<in>set pre. team_name (us ! k) \<noteq> team_name u \<longrightarrow>
             distance_to u (us ! j) < distance_to u (us ! k)"
          "\<forall>k\<in>set post. team_name (us ! k) \<noteq> team_name u \<longrightarrow>
             distance_to u (us ! j) \<le> distance_to u (us ! k)"
          using acc by auto
        have 1: "other # rest = (other # pre) @ j # post" using h(1) by simp
        have 2: "\<forall>k\<in>set (other # pre). team_name (us ! k) \<noteq> team_name u \<longrightarrow>
             distance_to u (us ! j) < distance_to u (us ! k)"
          using h(4,5) le by simp
        have 3: "case acc of None \<Rightarrow> True | Some (_, d0) \<Rightarrow> distance_to u (us ! j) < d0"
          using acc h(4) by simp
        show ?thesis using 1 2 3 h(2,3,6) by blast
      qed
    qed
  qed
qed

text \<open>
  C4. The target that the scan of the snapshot chooses for a unit \<open>u\<close> is a unit of the
  snapshot, of another team, at the least distance from \<open>u\<close> among the enemies of the
  snapshot, and every enemy before it in the snapshot is strictly farther away: among
  enemies at the least distance the first in snapshot order is chosen. There is no target
  exactly when the snapshot holds no enemy.
\<close>

theorem nearest_scan_target:
  "(nearest_scan us u alive None = None \<longleftrightarrow>
      (\<forall>k\<in>set alive. team_name (us ! k) = team_name u)) \<and>
   (nearest_scan us u alive None = Some (j, d) \<longrightarrow>
      j \<in> set alive \<and> team_name (us ! j) \<noteq> team_name u \<and> d = distance_to u (us ! j) \<and>
      (\<forall>k\<in>set alive. team_name (us ! k) \<noteq> team_name u \<longrightarrow> d \<le> distance_to u (us ! k)) \<and>
      (\<exists>pre post. alive = pre @ j # post \<and>
         (\<forall>k\<in>set pre. team_name (us ! k) \<noteq> team_name u \<longrightarrow> d < distance_to u (us ! k))))"
proof -
  note scan = nearest_scan_acc [of us u alive None, OF refl]
  have none: "nearest_scan us u alive None = None \<longleftrightarrow>
      (\<forall>k\<in>set alive. team_name (us ! k) = team_name u)"
    using scan by (cases "nearest_scan us u alive None") fastforce+
  have some: "nearest_scan us u alive None = Some (j, d) \<longrightarrow>
      j \<in> set alive \<and> team_name (us ! j) \<noteq> team_name u \<and> d = distance_to u (us ! j) \<and>
      (\<forall>k\<in>set alive. team_name (us ! k) \<noteq> team_name u \<longrightarrow> d \<le> distance_to u (us ! k)) \<and>
      (\<exists>pre post. alive = pre @ j # post \<and>
         (\<forall>k\<in>set pre. team_name (us ! k) \<noteq> team_name u \<longrightarrow> d < distance_to u (us ! k)))"
  proof
    assume r: "nearest_scan us u alive None = Some (j, d)"
    with scan obtain pre post where h: "alive = pre @ j # post" "d = distance_to u (us ! j)"
      "team_name (us ! j) \<noteq> team_name u"
      "\<forall>k\<in>set pre. team_name (us ! k) \<noteq> team_name u \<longrightarrow>
         distance_to u (us ! j) < distance_to u (us ! k)"
      "\<forall>k\<in>set post. team_name (us ! k) \<noteq> team_name u \<longrightarrow>
         distance_to u (us ! j) \<le> distance_to u (us ! k)"
      by auto
    have "\<forall>k\<in>set alive. team_name (us ! k) \<noteq> team_name u \<longrightarrow> d \<le> distance_to u (us ! k)"
      using h by (auto simp: less_imp_le)
    moreover have "j \<in> set alive" using h(1) by simp
    ultimately show "j \<in> set alive \<and> team_name (us ! j) \<noteq> team_name u \<and> d = distance_to u (us ! j) \<and>
      (\<forall>k\<in>set alive. team_name (us ! k) \<noteq> team_name u \<longrightarrow> d \<le> distance_to u (us ! k)) \<and>
      (\<exists>pre post. alive = pre @ j # post \<and>
         (\<forall>k\<in>set pre. team_name (us ! k) \<noteq> team_name u \<longrightarrow> d < distance_to u (us ! k)))"
      using h by blast
  qed
  from none some show ?thesis ..
qed

text \<open>
  A red unit with two blue units at the same distance 3: the first of them is chosen.
\<close>

theorem nearest_scan_target_witness:
  "nearest_scan tie_units (tie_units ! 0) [0, 1, 2] None = Some (1, 3) \<and>
   distance_to (tie_units ! 0) (tie_units ! 2) = 3 \<and>
   nearest_scan tie_units (tie_units ! 0) [0] None = None"
  using nearest_scan_target [of tie_units "tie_units ! 0" "[0, 1, 2]" 1 3]
    nearest_scan_target [of tie_units "tie_units ! 0" "[0]" 1 3]
  by (simp add: tie_units_def distance_to_def hypot_zero_right)

subsection \<open>What one turn changes\<close>

lemma move_toward_origin_fields:
  "type_name (move_toward_origin u dt) = type_name u"
  "team_name (move_toward_origin u dt) = team_name u"
  "health (move_toward_origin u dt) = health u"
  "move_speed (move_toward_origin u dt) = move_speed u"
  "weapon_range (move_toward_origin u dt) = weapon_range u"
  "weapon_damage (move_toward_origin u dt) = weapon_damage u"
  "weapon_cooldown (move_toward_origin u dt) = weapon_cooldown u"
  "last_attack_time (move_toward_origin u dt) = last_attack_time u"
  by (simp_all add: move_toward_origin_def Let_def)

lemma attack_length: "length (units (attack i j t s)) = length (units s)"
  by (simp add: attack_def Let_def)

lemma attack_nth:
  assumes "i < length (units s)" "j < length (units s)" "i \<noteq> j"
  shows "units (attack i j t s) ! k =
     (if k = i then (units s ! i)\<lparr>last_attack_time := t\<rparr>
      else if k = j then (units s ! j)\<lparr>health := health (units s ! j) - weapon_damage (units s ! i)\<rparr>
      else units s ! k)"
  using assms by (simp add: attack_def Let_def nth_list_update)

lemma attack_other_fields:
  "damage_stats (attack i j t s) =
     dd_add (type_name (units s ! i)) (weapon_damage (units s ! i)) (damage_stats s)"
  "frame_counter (attack i j t s) = frame_counter s"
  "simulation_running (attack i j t s) = simulation_running s"
  "winner (attack i j t s) = winner s"
  by (simp_all add: attack_def Let_def)

text \<open>The four outcomes of a turn.\<close>

lemma unit_turn_cases:
  obtains
    (skipped) "\<not> is_alive (units s ! i)" "unit_turn dt t alive i s = s"
  | (idle) j d where "is_alive (units s ! i)"
      "nearest_scan (units s) (units s ! i) alive None = Some (j, d)"
      "d \<le> weapon_range (units s ! i)"
      "\<not> t - last_attack_time (units s ! i) \<ge> weapon_cooldown (units s ! i)"
      "unit_turn dt t alive i s = s"
  | (attacks) j d where "is_alive (units s ! i)"
      "nearest_scan (units s) (units s ! i) alive None = Some (j, d)"
      "d \<le> weapon_range (units s ! i)"
      "t - last_attack_time (units s ! i) \<ge> weapon_cooldown (units s ! i)"
      "unit_turn dt t alive i s = attack i j t s"
  | (moves) "is_alive (units s ! i)"
      "\<forall>j d. nearest_scan (units s) (units s ! i) alive None = Some (j, d) \<longrightarrow>
         \<not> d \<le> weapon_range (units s ! i)"
      "unit_turn dt t alive i s = s\<lparr>units := (units s)[i := move_toward_origin (units s ! i) dt]\<rparr>"
proof (cases "is_alive (units s ! i)")
  case False
  then show ?thesis using skipped by (simp add: unit_turn_def)
next
  case alive: True
  show ?thesis
  proof (cases "nearest_scan (units s) (units s ! i) alive None")
    case None
    then show ?thesis using alive moves by (simp add: unit_turn_def)
  next
    case (Some p)
    obtain j d where p: "p = (j, d)" by (cases p)
    show ?thesis
    proof (cases "d \<le> weapon_range (units s ! i)")
      case False
      then show ?thesis using alive Some p moves by (simp add: unit_turn_def)
    next
      case inrange: True
      show ?thesis
      proof (cases "t - last_attack_time (units s ! i) \<ge> weapon_cooldown (units s ! i)")
        case True
        then show ?thesis using alive Some p inrange attacks by (simp add: unit_turn_def)
      next
        case False
        then show ?thesis using alive Some p inrange idle by (simp add: unit_turn_def)
      qed
    qed
  qed
qed


lemma nearest_scan_SomeD:
  assumes "nearest_scan us u alive None = Some (j, d)"
  shows "j \<in> set alive" "team_name (us ! j) \<noteq> team_name u" "d = distance_to u (us ! j)"
    "\<And>k. k \<in> set alive \<Longrightarrow> team_name (us ! k) \<noteq> team_name u \<Longrightarrow> d \<le> distance_to u (us ! k)"
proof -
  from nearest_scan_acc [OF assms] obtain pre post where h: "alive = pre @ j # post"
      "d = distance_to u (us ! j)" "team_name (us ! j) \<noteq> team_name u"
      "\<forall>k\<in>set pre. team_name (us ! k) \<noteq> team_name u \<longrightarrow>
         distance_to u (us ! j) < distance_to u (us ! k)"
      "\<forall>k\<in>set post. team_name (us ! k) \<noteq> team_name u \<longrightarrow>
         distance_to u (us ! j) \<le> distance_to u (us ! k)"
    by auto
  show "j \<in> set alive" using h(1) by simp
  show "team_name (us ! j) \<noteq> team_name u" by (rule h(3))
  show "d = distance_to u (us ! j)" by (rule h(2))
  show "d \<le> distance_to u (us ! k)"
    if "k \<in> set alive" "team_name (us ! k) \<noteq> team_name u" for k
    using that h by (auto simp: less_imp_le)
qed

lemma nearest_scan_NoneD:
  assumes "nearest_scan us u alive None = None" "k \<in> set alive"
  shows "team_name (us ! k) = team_name u"
  using nearest_scan_acc [OF assms(1)] assms(2) by auto

lemma stats_unchanged_refl: "stats_unchanged u u"
  by (simp add: stats_unchanged_def)

lemma stats_unchanged_trans:
  "stats_unchanged u v \<Longrightarrow> stats_unchanged v w \<Longrightarrow> stats_unchanged u w"
  by (simp add: stats_unchanged_def)

lemma unit_turn_frame:
  assumes k: "k < length (units s)" and al: "set alive \<subseteq> {..<length (units s)}"
  shows "length (units (unit_turn dt t alive k s)) = length (units s)"
    and "i < length (units s) \<Longrightarrow>
           stats_unchanged (units s ! i) (units (unit_turn dt t alive k s) ! i)"
    and "i < length (units s) \<Longrightarrow> i \<noteq> k \<Longrightarrow>
           x (units (unit_turn dt t alive k s) ! i) = x (units s ! i) \<and>
           y (units (unit_turn dt t alive k s) ! i) = y (units s ! i) \<and>
           last_attack_time (units (unit_turn dt t alive k s) ! i) = last_attack_time (units s ! i)"
    and "frame_counter (unit_turn dt t alive k s) = frame_counter s \<and>
         simulation_running (unit_turn dt t alive k s) = simulation_running s \<and>
         winner (unit_turn dt t alive k s) = winner s"
proof -
  have "length (units (unit_turn dt t alive k s)) = length (units s) \<and>
    (i < length (units s) \<longrightarrow>
           stats_unchanged (units s ! i) (units (unit_turn dt t alive k s) ! i)) \<and>
    (i < length (units s) \<longrightarrow> i \<noteq> k \<longrightarrow>
           x (units (unit_turn dt t alive k s) ! i) = x (units s ! i) \<and>
           y (units (unit_turn dt t alive k s) ! i) = y (units s ! i) \<and>
           last_attack_time (units (unit_turn dt t alive k s) ! i) = last_attack_time (units s ! i)) \<and>
    frame_counter (unit_turn dt t alive k s) = frame_counter s \<and>
         simulation_running (unit_turn dt t alive k s) = simulation_running s \<and>
         winner (unit_turn dt t alive k s) = winner s"
  proof (cases rule: unit_turn_cases [of s k dt t alive])
    case skipped
    then show ?thesis by (simp add: stats_unchanged_refl)
  next
    case (idle j d)
    then show ?thesis by (simp add: stats_unchanged_refl)
  next
    case (attacks j d)
    from nearest_scan_SomeD(1,2) [OF attacks(2)] al
    have j: "j < length (units s)" "k \<noteq> j" by auto
    show ?thesis
      by (simp add: attacks(5) attack_length attack_nth [OF k j] attack_other_fields
          stats_unchanged_def)
  next
    case moves
    show ?thesis
      using k
      by (auto simp: moves(3) nth_list_update stats_unchanged_def move_toward_origin_fields)
  qed
  then show "length (units (unit_turn dt t alive k s)) = length (units s)"
    and "i < length (units s) \<Longrightarrow>
           stats_unchanged (units s ! i) (units (unit_turn dt t alive k s) ! i)"
    and "i < length (units s) \<Longrightarrow> i \<noteq> k \<Longrightarrow>
           x (units (unit_turn dt t alive k s) ! i) = x (units s ! i) \<and>
           y (units (unit_turn dt t alive k s) ! i) = y (units s ! i) \<and>
           last_attack_time (units (unit_turn dt t alive k s) ! i) = last_attack_time (units s ! i)"
    and "frame_counter (unit_turn dt t alive k s) = frame_counter s \<and>
         simulation_running (unit_turn dt t alive k s) = simulation_running s \<and>
         winner (unit_turn dt t alive k s) = winner s"
    by simp_all
qed

lemma turns_frame:
  assumes "set ks \<subseteq> {..<length (units s)}" "set alive \<subseteq> {..<length (units s)}"
  shows "length (units (fold (unit_turn dt t alive) ks s)) = length (units s) \<and>
    (\<forall>i<length (units s).
       stats_unchanged (units s ! i) (units (fold (unit_turn dt t alive) ks s) ! i) \<and>
       (i \<notin> set ks \<longrightarrow>
          x (units (fold (unit_turn dt t alive) ks s) ! i) = x (units s ! i) \<and>
          y (units (fold (unit_turn dt t alive) ks s) ! i) = y (units s ! i) \<and>
          last_attack_time (units (fold (unit_turn dt t alive) ks s) ! i) =
            last_attack_time (units s ! i))) \<and>
    frame_counter (fold (unit_turn dt t alive) ks s) = frame_counter s \<and>
    simulation_running (fold (unit_turn dt t alive) ks s) = simulation_running s \<and>
    winner (fold (unit_turn dt t alive) ks s) = winner s"
  using assms
proof (induction ks arbitrary: s)
  case Nil
  then show ?case by (simp add: stats_unchanged_refl)
next
  case (Cons k ks)
  let ?s1 = "unit_turn dt t alive k s"
  have k: "k < length (units s)" using Cons.prems(1) by simp
  note fr = unit_turn_frame [OF k Cons.prems(2), where dt = dt and t = t]
  have len: "length (units ?s1) = length (units s)" by (rule fr(1))
  have ih: "length (units (fold (unit_turn dt t alive) ks ?s1)) = length (units ?s1) \<and>
    (\<forall>i<length (units ?s1).
       stats_unchanged (units ?s1 ! i) (units (fold (unit_turn dt t alive) ks ?s1) ! i) \<and>
       (i \<notin> set ks \<longrightarrow>
          x (units (fold (unit_turn dt t alive) ks ?s1) ! i) = x (units ?s1 ! i) \<and>
          y (units (fold (unit_turn dt t alive) ks ?s1) ! i) = y (units ?s1 ! i) \<and>
          last_attack_time (units (fold (unit_turn dt t alive) ks ?s1) ! i) =
            last_attack_time (units ?s1 ! i))) \<and>
    frame_counter (fold (unit_turn dt t alive) ks ?s1) = frame_counter ?s1 \<and>
    simulation_running (fold (unit_turn dt t alive) ks ?s1) = simulation_running ?s1 \<and>
    winner (fold (unit_turn dt t alive) ks ?s1) = winner ?s1"
    using Cons.prems by (intro Cons.IH) (simp_all add: len)
  show ?case
  proof (intro conjI allI impI)
    fix i assume i: "i < length (units s)"
    show "stats_unchanged (units s ! i) (units (fold (unit_turn dt t alive) (k # ks) s) ! i)"
      using ih i fr(2) [OF i] len by (auto intro: stats_unchanged_trans)
    assume "i \<notin> set (k # ks)"
    then show "x (units (fold (unit_turn dt t alive) (k # ks) s) ! i) = x (units s ! i)"
      "y (units (fold (unit_turn dt t alive) (k # ks) s) ! i) = y (units s ! i)"
      "last_attack_time (units (fold (unit_turn dt t alive) (k # ks) s) ! i) =
            last_attack_time (units s ! i)"
      using ih i fr(3) [OF i] len by auto
  qed (use ih fr in simp_all)
qed

subsection \<open>The snapshot and the turn of one unit within the loop\<close>

lemma alive_snapshot_set:
  "set (alive_snapshot us) = {i. i < length us \<and> is_alive (us ! i)}"
  by (auto simp: alive_snapshot_def)

lemma alive_snapshot_distinct: "distinct (alive_snapshot us)"
  by (simp add: alive_snapshot_def)

lemma snapshot_split:
  assumes "alive_snapshot us = pre @ i # post"
  shows "set (pre @ i # post) \<subseteq> {..<length us}" "i < length us" "i \<notin> set pre" "i \<notin> set post"
    "set pre \<subseteq> {..<length us}" "set post \<subseteq> {..<length us}" "is_alive (us ! i)"
proof -
  have s: "set (pre @ i # post) = {i. i < length us \<and> is_alive (us ! i)}"
    using alive_snapshot_set [of us] assms by simp
  have d: "distinct (pre @ i # post)"
    using alive_snapshot_distinct [of us] assms by simp
  show "set (pre @ i # post) \<subseteq> {..<length us}" using s by auto
  show "i < length us" "is_alive (us ! i)" using s by auto
  show "i \<notin> set pre" "i \<notin> set post" using d by auto
  show "set pre \<subseteq> {..<length us}" "set post \<subseteq> {..<length us}" using s by auto
qed

text \<open>The state of the unit \<open>i\<close> after the whole loop is the one its own turn leaves, up to health.\<close>

lemma resolver_split:
  "combat_resolver dt t (pre @ i # post) s =
     fold (unit_turn dt t (pre @ i # post)) post
       (unit_turn dt t (pre @ i # post) i (fold (unit_turn dt t (pre @ i # post)) pre s))"
  by (simp add: combat_resolver_def)

lemma own_turn_decides:
  fixes dt t :: real
  assumes snap: "alive_snapshot (units s) = pre @ i # post"
  defines "alive \<equiv> pre @ i # post"
  defines "mid \<equiv> fold (unit_turn dt t alive) pre s"
  shows "length (units mid) = length (units s)"
    and "x (units mid ! i) = x (units s ! i)"
    and "y (units mid ! i) = y (units s ! i)"
    and "last_attack_time (units mid ! i) = last_attack_time (units s ! i)"
    and "stats_unchanged (units s ! i) (units mid ! i)"
    and "x (units (combat_resolver dt t alive s) ! i) = x (units (unit_turn dt t alive i mid) ! i)"
    and "y (units (combat_resolver dt t alive s) ! i) = y (units (unit_turn dt t alive i mid) ! i)"
    and "last_attack_time (units (combat_resolver dt t alive s) ! i) =
         last_attack_time (units (unit_turn dt t alive i mid) ! i)"
proof -
  note sp = snapshot_split [OF snap]
  have al: "set alive \<subseteq> {..<length (units s)}" using sp(1) by (simp add: alive_def)
  note pre = turns_frame [OF sp(5) al, of dt t, folded mid_def]
  show len: "length (units mid) = length (units s)" using pre by simp
  show "x (units mid ! i) = x (units s ! i)" "y (units mid ! i) = y (units s ! i)"
    "last_attack_time (units mid ! i) = last_attack_time (units s ! i)"
    "stats_unchanged (units s ! i) (units mid ! i)"
    using pre sp(2,3) by simp_all
  let ?own = "unit_turn dt t alive i mid"
  have i: "i < length (units mid)" using sp(2) len by simp
  have al': "set alive \<subseteq> {..<length (units mid)}" using al len by simp
  have len': "length (units ?own) = length (units mid)"
    by (rule unit_turn_frame(1) [OF i al'])
  have "set post \<subseteq> {..<length (units ?own)}" "set alive \<subseteq> {..<length (units ?own)}"
    using sp(6) al len len' by simp_all
  note post = turns_frame [OF this, of dt t]
  have split: "combat_resolver dt t alive s = fold (unit_turn dt t alive) post ?own"
    by (simp add: alive_def mid_def resolver_split)
  show "x (units (combat_resolver dt t alive s) ! i) = x (units ?own ! i)"
    "y (units (combat_resolver dt t alive s) ! i) = y (units ?own ! i)"
    "last_attack_time (units (combat_resolver dt t alive s) ! i) = last_attack_time (units ?own ! i)"
    using post sp(4) i len' by (simp_all add: split)
qed


lemma move_toward_origin_cong:
  assumes "x u = x v" "y u = y v" "move_speed u = move_speed v"
  shows "x (move_toward_origin u dt) = x (move_toward_origin v dt)"
    and "y (move_toward_origin u dt) = y (move_toward_origin v dt)"
  using assms by (simp_all add: move_toward_origin_def Let_def)

lemmas eval_defs = initial_state_def tick_def alive_snapshot_def is_alive_def combat_resolver_def
  unit_turn_def distance_to_def attack_def FIXED_DT_def upt_conv_Cons hypot_zero_right
  move_toward_origin_def Let_def

subsection \<open>A unit killed earlier in the same tick\<close>

text \<open>
  C1, as amended. The snapshot \<open>pre @ i # post\<close> is taken at the start of the tick, so the
  unit \<open>i\<close> is alive then. If its health is no longer positive when its turn comes, after
  the turns of \<open>pre\<close>, then its turn changes nothing: the loop gives the same state as
  the loop without the turn of \<open>i\<close> (with \<open>i\<close> still in the snapshot that the other
  units scan), and its position and last attack time at the end of the loop are those of
  the start of the tick. Liveness is checked again before each unit acts.
\<close>

theorem killed_unit_is_skipped:
  fixes dt t :: real
  assumes snap: "alive_snapshot (units s) = pre @ i # post"
  defines "alive \<equiv> pre @ i # post"
  defines "mid \<equiv> fold (unit_turn dt t alive) pre s"
  assumes dead: "\<not> is_alive (units mid ! i)"
  shows "unit_turn dt t alive i mid = mid \<and>
         combat_resolver dt t alive s = fold (unit_turn dt t alive) (pre @ post) s \<and>
         x (units (combat_resolver dt t alive s) ! i) = x (units s ! i) \<and>
         y (units (combat_resolver dt t alive s) ! i) = y (units s ! i) \<and>
         last_attack_time (units (combat_resolver dt t alive s) ! i) =
           last_attack_time (units s ! i)"
proof -
  have own: "unit_turn dt t alive i mid = mid"
    using dead by (simp add: unit_turn_def)
  note d = own_turn_decides [OF snap, of dt t, folded alive_def, folded mid_def]
  have "combat_resolver dt t alive s = fold (unit_turn dt t alive) (pre @ post) s"
    using own by (simp add: resolver_split alive_def mid_def)
  then show ?thesis
    using own d by simp
qed

text \<open>The blue archer of the duel, killed by the red soldier that acts before it.\<close>

theorem killed_unit_is_skipped_witness:
  "alive_snapshot (units (initial_state duel_units)) = [0] @ 1 # [] \<and>
   \<not> is_alive (units (fold (unit_turn FIXED_DT 0 ([0] @ 1 # [])) [0] (initial_state duel_units)) ! 1) \<and>
   combat_resolver FIXED_DT 0 ([0] @ 1 # []) (initial_state duel_units) =
     fold (unit_turn FIXED_DT 0 ([0] @ 1 # [])) ([0] @ []) (initial_state duel_units)"
proof -
  have h1: "alive_snapshot (units (initial_state duel_units)) = [0] @ 1 # []"
    by (simp add: eval_defs duel_units_def)
  have h2: "\<not> is_alive (units (fold (unit_turn FIXED_DT 0 ([0] @ 1 # [])) [0]
       (initial_state duel_units)) ! 1)"
    by (simp add: eval_defs duel_units_def)
  from killed_unit_is_skipped [OF h1 h2] h1 h2 show ?thesis by blast
qed

text \<open>
  C1 as stated fails in the duel. The blue archer is alive at the start of the tick and in
  the snapshot; the red soldier acts first and brings its health to 0. The archer has the
  soldier as nearest enemy, in range, and its cooldown has elapsed, so its action would be
  an attack; yet after the tick the soldier has lost no health, the archer's last attack
  time is the sentinel, and the only damage recorded is the soldier's.
\<close>

theorem killed_unit_acts_counterexample:
  "is_alive (units (initial_state duel_units) ! 1) \<and>
   alive_snapshot (units (initial_state duel_units)) = [0, 1] \<and>
   health (units (unit_turn FIXED_DT 0 [0, 1] 0 (initial_state duel_units)) ! 1) = 0 \<and>
   nearest_scan duel_units (duel_units ! 1) [0, 1] None = Some (0, 3) \<and>
   3 \<le> weapon_range (duel_units ! 1) \<and>
   0 - last_attack_time (duel_units ! 1) \<ge> weapon_cooldown (duel_units ! 1) \<and>
   health (units (tick (initial_state duel_units)) ! 0) = health (duel_units ! 0) \<and>
   last_attack_time (units (tick (initial_state duel_units)) ! 1) = last_attack_time (duel_units ! 1) \<and>
   damage_stats (tick (initial_state duel_units)) = [(''soldier'', 10)]"
  by (simp add: eval_defs duel_units_def)

subsection \<open>A unit with an enemy in range\<close>



subsection \<open>A unit with no enemy in range\<close>

text \<open>
  C2, as amended. With \<open>mid\<close> as before: if the unit \<open>i\<close> is alive when its turn comes
  and every enemy of the snapshot is farther away than its weapon range, then, whether its
  cooldown has elapsed or not, its turn is the movement toward the origin and nothing
  else: no health and no damage total changes, its last attack time after the loop is the
  one at the start of the tick, and its position after the loop is the one that
  \<open>move_toward_origin\<close> gives from its position at the start.
\<close>

theorem out_of_range_unit_moves:
  fixes dt t :: real
  assumes snap: "alive_snapshot (units s) = pre @ i # post"
  defines "alive \<equiv> pre @ i # post"
  defines "mid \<equiv> fold (unit_turn dt t alive) pre s"
  assumes alive: "is_alive (units mid ! i)"
    and norange: "\<forall>k\<in>set alive. team_name (units mid ! k) \<noteq> team_name (units mid ! i) \<longrightarrow>
           distance_to (units mid ! i) (units mid ! k) > weapon_range (units mid ! i)"
  shows "unit_turn dt t alive i mid =
           mid\<lparr>units := (units mid)[i := move_toward_origin (units mid ! i) dt]\<rparr> \<and>
         damage_stats (unit_turn dt t alive i mid) = damage_stats mid \<and>
         (\<forall>k. health (units (unit_turn dt t alive i mid) ! k) = health (units mid ! k)) \<and>
         last_attack_time (units (combat_resolver dt t alive s) ! i) =
           last_attack_time (units s ! i) \<and>
         x (units (combat_resolver dt t alive s) ! i) = x (move_toward_origin (units s ! i) dt) \<and>
         y (units (combat_resolver dt t alive s) ! i) = y (move_toward_origin (units s ! i) dt)"
proof -
  note sp = snapshot_split [OF snap]
  note d = own_turn_decides [OF snap, of dt t, folded alive_def, folded mid_def]
  have i: "i < length (units mid)" using sp(2) d(1) by simp
  have far: "\<not> dd \<le> weapon_range (units mid ! i)"
    if "nearest_scan (units mid) (units mid ! i) alive None = Some (j, dd)" for j dd
    using nearest_scan_SomeD(1,2,3) [OF that] norange by fastforce
  have own: "unit_turn dt t alive i mid =
           mid\<lparr>units := (units mid)[i := move_toward_origin (units mid ! i) dt]\<rparr>"
    using alive far
    by (cases "nearest_scan (units mid) (units mid ! i) alive None")
      (auto simp: unit_turn_def)
  have hl: "health (units (unit_turn dt t alive i mid) ! k) = health (units mid ! k)" for k
    using i by (cases "k = i") (simp_all add: own move_toward_origin_fields)
  have st: "move_speed (units mid ! i) = move_speed (units s ! i)"
    using d(5) by (simp add: stats_unchanged_def)
  note mc = move_toward_origin_cong [OF d(2,3) st, of dt]
  have "x (units (unit_turn dt t alive i mid) ! i) = x (move_toward_origin (units s ! i) dt)"
    "y (units (unit_turn dt t alive i mid) ! i) = y (move_toward_origin (units s ! i) dt)"
    "last_attack_time (units (unit_turn dt t alive i mid) ! i) = last_attack_time (units s ! i)"
    using i mc d(4) by (simp_all add: own move_toward_origin_fields)
  then show ?thesis
    using own hl d(6,7,8) by simp
qed

text \<open>
  The chase after its first tick: the soldier has killed the near archer at time 0, and
  the far archer has taken one step.
\<close>

lemma chase_first_tick:
  "tick (initial_state chase_units) =
     \<lparr>units =
        [\<lparr>type_name = ''soldier'', team_name = ''red'', x = 10, y = 0,
          health = 10, move_speed = 1, weapon_range = 5, weapon_damage = 10,
          weapon_cooldown = 1, last_attack_time = 0\<rparr>,
         \<lparr>type_name = ''archer'', team_name = ''blue'', x = 6, y = 0,
          health = 0, move_speed = 1, weapon_range = 5, weapon_damage = 4,
          weapon_cooldown = 1, last_attack_time = - (10 ^ 9)\<rparr>,
         \<lparr>type_name = ''archer'', team_name = ''blue'', x = - (5999 / 60), y = 0,
          health = 10, move_speed = 1, weapon_range = 5, weapon_damage = 4,
          weapon_cooldown = 1, last_attack_time = - (10 ^ 9)\<rparr>],
      damage_stats = [(''soldier'', 10)], frame_counter = 1,
      simulation_running = True, winner = None\<rparr>"
  by (simp add: eval_defs chase_units_def)

text \<open>In the second tick the soldier has no enemy in range and steps from 10 to \<open>599/60\<close>.\<close>

theorem out_of_range_unit_moves_witness:
  "alive_snapshot (units (tick (initial_state chase_units))) = [] @ 0 # [2] \<and>
   is_alive (units (tick (initial_state chase_units)) ! 0) \<and>
   distance_to (units (tick (initial_state chase_units)) ! 0)
     (units (tick (initial_state chase_units)) ! 2) > weapon_range (units (tick (initial_state chase_units)) ! 0) \<and>
   x (units (combat_resolver FIXED_DT (1 / 60) ([] @ 0 # [2]) (tick (initial_state chase_units))) ! 0)
     = 599 / 60"
proof -
  let ?s = "tick (initial_state chase_units)"
  have h1: "alive_snapshot (units ?s) = [] @ 0 # [2]"
    by (simp add: chase_first_tick alive_snapshot_def is_alive_def upt_conv_Cons)
  have h2: "is_alive (units (fold (unit_turn FIXED_DT (1 / 60) ([] @ 0 # [2])) [] ?s) ! 0)"
    by (simp add: chase_first_tick is_alive_def)
  have h3: "\<forall>k\<in>set ([] @ 0 # [2]).
      team_name (units (fold (unit_turn FIXED_DT (1 / 60) ([] @ 0 # [2])) [] ?s) ! k)
        \<noteq> team_name (units (fold (unit_turn FIXED_DT (1 / 60) ([] @ 0 # [2])) [] ?s) ! 0) \<longrightarrow>
      distance_to (units (fold (unit_turn FIXED_DT (1 / 60) ([] @ 0 # [2])) [] ?s) ! 0)
        (units (fold (unit_turn FIXED_DT (1 / 60) ([] @ 0 # [2])) [] ?s) ! k)
        > weapon_range (units (fold (unit_turn FIXED_DT (1 / 60) ([] @ 0 # [2])) [] ?s) ! 0)"
    by (simp add: chase_first_tick distance_to_def hypot_zero_right)
  have mv: "x (move_toward_origin (units ?s ! 0) FIXED_DT) = 599 / 60"
    by (simp add: chase_first_tick move_toward_origin_def FIXED_DT_def hypot_zero_right)
  from out_of_range_unit_moves [OF h1 h2 h3] mv
  have "x (units (combat_resolver FIXED_DT (1 / 60) ([] @ 0 # [2]) ?s) ! 0) = 599 / 60"
    by simp
  moreover have "is_alive (units ?s ! 0)"
    "distance_to (units ?s ! 0) (units ?s ! 2) > weapon_range (units ?s ! 0)"
    by (simp_all add: chase_first_tick is_alive_def distance_to_def hypot_zero_right)
  ultimately show ?thesis using h1 by simp
qed

text \<open>
  C2 as stated fails in the second tick of the chase, at time \<open>1/60\<close>: the soldier is
  alive, its nearest enemy is at distance \<open>10 + 5999/60\<close>, beyond its range 5, and its
  cooldown of 1 has not elapsed since its attack at time 0; yet it moves from 10 to
  \<open>599/60\<close>.
\<close>

theorem blocked_unit_moves_counterexample:
  "simulation_running (tick (initial_state chase_units)) \<and>
   frame_counter (tick (initial_state chase_units)) = 1 \<and>
   alive_snapshot (units (tick (initial_state chase_units))) = [0, 2] \<and>
   nearest_scan (units (tick (initial_state chase_units)))
     (units (tick (initial_state chase_units)) ! 0) [0, 2] None = Some (2, 10 + 5999 / 60) \<and>
   weapon_range (units (tick (initial_state chase_units)) ! 0) = 5 \<and>
   1 * FIXED_DT - last_attack_time (units (tick (initial_state chase_units)) ! 0)
     < weapon_cooldown (units (tick (initial_state chase_units)) ! 0) \<and>
   x (units (tick (initial_state chase_units)) ! 0) = 10 \<and>
   x (units (tick (tick (initial_state chase_units))) ! 0) = 599 / 60"
proof -
  have "x (units (tick (tick (initial_state chase_units))) ! 0) = 599 / 60"
    unfolding chase_first_tick by (simp add: eval_defs)
  then show ?thesis
    by (simp add: chase_first_tick alive_snapshot_def is_alive_def upt_conv_Cons distance_to_def
        hypot_zero_right FIXED_DT_def)
qed

subsection \<open>The two branches of a tick\<close>

lemma snapshot_teams:
  "set (map (\<lambda>i. team_name (us ! i)) (alive_snapshot us)) =
     team_name ` {u \<in> set us. is_alive u}"
proof -
  have "set (map (\<lambda>i. team_name (us ! i)) (alive_snapshot us)) =
        (\<lambda>i. team_name (us ! i)) ` {i. i < length us \<and> is_alive (us ! i)}"
    by (simp add: alive_snapshot_set)
  also have "\<dots> = team_name ` {u \<in> set us. is_alive u}"
  proof (intro set_eqI iffI)
    fix a assume "a \<in> (\<lambda>i. team_name (us ! i)) ` {i. i < length us \<and> is_alive (us ! i)}"
    then obtain i where "i < length us" "is_alive (us ! i)" "a = team_name (us ! i)" by auto
    then show "a \<in> team_name ` {u \<in> set us. is_alive u}" by auto
  next
    fix a assume "a \<in> team_name ` {u \<in> set us. is_alive u}"
    then obtain u where u: "u \<in> set us" "is_alive u" "a = team_name u" by auto
    from u(1) obtain i where "i < length us" "us ! i = u" by (auto simp: in_set_conv_nth)
    with u show "a \<in> (\<lambda>i. team_name (us ! i)) ` {i. i < length us \<and> is_alive (us ! i)}"
      by auto
  qed
  finally show ?thesis .
qed

lemma teams_length:
  "length (remdups (map (\<lambda>i. team_name (us ! i)) (alive_snapshot us))) =
     card (team_name ` {u \<in> set us. is_alive u})"
  by (simp add: length_remdups_card_conv snapshot_teams del: set_map)

lemma tick_terminates:
  assumes "card (team_name ` {u \<in> set (units s). is_alive u}) \<le> 1"
  shows "tick s = s\<lparr>frame_counter := frame_counter s + 1, simulation_running := False,
           winner := (case remdups (map (\<lambda>i. team_name (units s ! i)) (alive_snapshot (units s)))
                      of [] \<Rightarrow> None | t # _ \<Rightarrow> Some t)\<rparr>"
  using assms by (simp add: tick_def Let_def teams_length)

lemma tick_continues:
  assumes "\<not> card (team_name ` {u \<in> set (units s). is_alive u}) \<le> 1"
  shows "tick s = combat_resolver FIXED_DT (real (frame_counter s) * FIXED_DT)
           (alive_snapshot (units s)) (s\<lparr>frame_counter := frame_counter s + 1\<rparr>)"
  using assms by (simp add: tick_def Let_def teams_length)

lemma run_ticks_stopped: "\<not> simulation_running s \<Longrightarrow> run_ticks n s = s"
  by (cases n) simp_all

subsection \<open>The terminal tick\<close>

text \<open>
  C6. In a tick at whose start the living units belong to at most one team, the combat
  resolver is not invoked: the units and the damage table are left as they are, only the
  frame counter advances, and the loop is left (\<open>simulation_running\<close> is false). The winner
  is the team of every living unit, or none when no unit lives. The state is absorbing:
  the loop started in it returns it at once, and no further iteration changes it.
\<close>

theorem terminal_tick:
  assumes "card (team_name ` {u \<in> set (units s). is_alive u}) \<le> 1"
  shows "units (tick s) = units s \<and> damage_stats (tick s) = damage_stats s \<and>
         frame_counter (tick s) = frame_counter s + 1 \<and>
         \<not> simulation_running (tick s) \<and>
         (\<forall>u\<in>set (units s). is_alive u \<longrightarrow> winner (tick s) = Some (team_name u)) \<and>
         ((\<forall>u\<in>set (units s). \<not> is_alive u) \<longrightarrow> winner (tick s) = None) \<and>
         (simulation_running s \<longrightarrow> main_loop s = Some (tick s)) \<and>
         main_loop (tick s) = Some (tick s) \<and>
         (\<forall>n. run_ticks n (tick s) = tick s)"
proof -
  let ?teams = "remdups (map (\<lambda>i. team_name (units s ! i)) (alive_snapshot (units s)))"
  note t = tick_terminates [OF assms]
  have stop: "\<not> simulation_running (tick s)" by (subst t) simp
  have len: "length ?teams \<le> 1" using assms by (simp add: teams_length)
  have set: "set ?teams = team_name ` {u \<in> set (units s). is_alive u}"
    using snapshot_teams [of "units s"] by simp
  have w1: "winner (tick s) = Some (team_name u)" if "u \<in> set (units s)" "is_alive u" for u
  proof -
    have "team_name u \<in> set ?teams" using that set by blast
    with len have "?teams = [team_name u]"
      by (cases ?teams) auto
    then show ?thesis by (subst t) simp
  qed
  have w0: "winner (tick s) = None" if "\<forall>u\<in>set (units s). \<not> is_alive u"
  proof -
    have "{u \<in> set (units s). is_alive u} = {}" using that by simp
    then have "set ?teams = {}" by (simp only: set image_empty)
    then have "?teams = []" by (simp only: set_empty)
    then show ?thesis by (subst t) simp
  qed
  have m1: "main_loop s = Some (tick s)" if "simulation_running s"
    using that stop by (subst main_loop.simps) (simp add: Let_def)
  have m2: "main_loop (tick s) = Some (tick s)"
    using stop by (subst main_loop.simps) simp
  have "units (tick s) = units s" "damage_stats (tick s) = damage_stats s"
    "frame_counter (tick s) = frame_counter s + 1"
    by (subst t, simp)+
  moreover have "\<forall>u\<in>set (units s). is_alive u \<longrightarrow> winner (tick s) = Some (team_name u)"
    using w1 by blast
  moreover have "(\<forall>u\<in>set (units s). \<not> is_alive u) \<longrightarrow> winner (tick s) = None"
    using w0 by blast
  moreover have "simulation_running s \<longrightarrow> main_loop s = Some (tick s)"
    using m1 by blast
  moreover have "\<forall>n. run_ticks n (tick s) = tick s"
    using run_ticks_stopped [OF stop] by blast
  ultimately show ?thesis
    using stop m2 by (intro conjI)
qed

text \<open>The duel after its first tick: the archer is dead and only the red team lives.\<close>

lemma duel_first_tick:
  "tick (initial_state duel_units) =
     \<lparr>units =
        [\<lparr>type_name = ''soldier'', team_name = ''red'', x = 0, y = 0,
          health = 10, move_speed = 1, weapon_range = 5, weapon_damage = 10,
          weapon_cooldown = 1, last_attack_time = 0\<rparr>,
         \<lparr>type_name = ''archer'', team_name = ''blue'', x = 3, y = 0,
          health = 0, move_speed = 1, weapon_range = 5, weapon_damage = 4,
          weapon_cooldown = 1, last_attack_time = - (10 ^ 9)\<rparr>],
      damage_stats = [(''soldier'', 10)], frame_counter = 1,
      simulation_running = True, winner = None\<rparr>"
  by (simp add: eval_defs duel_units_def)

text \<open>The second tick of the duel ends the loop with red as the winner.\<close>

theorem terminal_tick_witness:
  "card (team_name ` {u \<in> set (units (tick (initial_state duel_units))). is_alive u}) \<le> 1 \<and>
   units (tick (tick (initial_state duel_units))) = units (tick (initial_state duel_units)) \<and>
   winner (tick (tick (initial_state duel_units))) = Some ''red'' \<and>
   main_loop (tick (initial_state duel_units)) = Some (tick (tick (initial_state duel_units)))"
proof -
  let ?s = "tick (initial_state duel_units)"
  have al: "{u \<in> set (units ?s). is_alive u} = {units ?s ! 0}"
    by (auto simp: duel_first_tick is_alive_def)
  have h: "card (team_name ` {u \<in> set (units ?s). is_alive u}) \<le> 1"
    by (simp add: al)
  have "units ?s ! 0 \<in> set (units ?s)" "is_alive (units ?s ! 0)" "simulation_running ?s"
    "team_name (units ?s ! 0) = ''red''"
    by (simp_all add: duel_first_tick is_alive_def)
  note f = this
  note tt = terminal_tick [OF h]
  have "units (tick ?s) = units ?s" using tt by (elim conjE)
  moreover have "winner (tick ?s) = Some ''red''"
    using tt f(1,2,4) by (elim conjE) (metis)
  moreover have "main_loop ?s = Some (tick ?s)"
    using tt f(3) by (elim conjE) blast
  ultimately show ?thesis using h by (intro conjI)
qed

subsection \<open>The loading loops\<close>

lemma parse_unit_types_dom:
  "parse_unit_types utr m0 = Inr unit_types \<Longrightarrow> dom unit_types = dom m0 \<union> fst ` set utr"
proof (induction utr arbitrary: m0)
  case Nil
  then show ?case by simp
next
  case (Cons p utr)
  obtain tname stats where p: "p = (tname, stats)" by (cases p)
  from Cons.prems p obtain ut where "UnitType_of_stats stats = Inr ut"
    and rest: "parse_unit_types utr (m0(tname \<mapsto> ut)) = Inr unit_types"
    by (auto split: sum.splits)
  from Cons.IH [OF rest] p show ?case by auto
qed

lemma Unit_init_known:
  "unit_types name \<noteq> None \<Longrightarrow> Unit_init name team px py unit_types \<noteq> None"
  by (auto simp: Unit_init_def)

lemma load_members_ok:
  assumes "\<forall>m\<in>set ok. member_ok unit_types m"
  shows "\<exists>us'. load_members team (ok @ rest) unit_types us = load_members team rest unit_types us'"
  using assms
proof (induction ok arbitrary: us)
  case Nil
  then show ?case by auto
next
  case (Cons m ok)
  from Cons.prems obtain name px py where m: "m_name m = Some name" "unit_types name \<noteq> None"
    "m_x m = Some px" "m_y m = Some py"
    by (auto simp: member_ok_def split: option.splits)
  from Unit_init_known [where unit_types = unit_types and name = name] m(2)
  obtain u where u: "Unit_init name team px py unit_types = Some u"
    by blast
  have "load_members team ((m # ok) @ rest) unit_types us =
        load_members team (ok @ rest) unit_types (us @ [u])"
    using m u by auto
  with Cons.IH [of "us @ [u]"] Cons.prems show ?case by auto
qed

lemma load_members_all_ok:
  assumes "\<forall>m\<in>set ok. member_ok unit_types m"
  shows "\<exists>us'. load_members team ok unit_types us = Inr us'"
  using load_members_ok [OF assms, of team "[]" us] by simp

lemma load_members_unknown:
  assumes "m_name m = Some name" "m_x m \<noteq> None" "m_y m \<noteq> None" "unit_types name = None"
  shows "load_members team (m # rest) unit_types us = Inl (UnknownUnitType name team)"
  using assms by auto

lemma load_teams_ok:
  assumes "\<forall>(team, members)\<in>set before. \<forall>m\<in>set members. member_ok unit_types m"
  shows "\<exists>us'. load_teams (before @ rest) unit_types us = load_teams rest unit_types us'"
  using assms
proof (induction before arbitrary: us)
  case Nil
  then show ?case by auto
next
  case (Cons p before)
  obtain team members where p: "p = (team, members)" by (cases p)
  with Cons.prems have "\<forall>m\<in>set members. member_ok unit_types m" by auto
  from load_members_all_ok [OF this] obtain us1 where
    "load_members team members unit_types us = Inr us1" by blast
  then have "load_teams ((p # before) @ rest) unit_types us =
             load_teams (before @ rest) unit_types us1"
    using p by simp
  with Cons.IH [of us1] Cons.prems show ?case by auto
qed

text \<open>A member of an unregistered type makes the loop over the members fail.\<close>

lemma load_members_fails:
  assumes "m \<in> set members" "m_name m = Some name" "unit_types name = None"
  shows "\<exists>e. load_members team members unit_types us = Inl e"
  using assms(1)
proof (induction members arbitrary: us)
  case Nil
  then show ?case by simp
next
  case (Cons a members)
  show ?case
  proof (cases "member_ok unit_types a")
    case True
    then have "a \<noteq> m" using assms(2,3) by (auto simp: member_ok_def)
    with Cons.prems have min: "m \<in> set members" by simp
    from load_members_ok [of "[a]" unit_types team members us] True
    obtain us' where "load_members team (a # members) unit_types us =
        load_members team members unit_types us'" by auto
    with Cons.IH [OF min, of us'] show ?thesis by simp
  next
    case False
    then show ?thesis
      by (auto simp: member_ok_def Unit_init_def split: option.splits)
  qed
qed

lemma load_teams_fails:
  assumes "(team, members) \<in> set teams" "m \<in> set members" "m_name m = Some name"
    "unit_types name = None"
  shows "\<exists>e. load_teams teams unit_types us = Inl e"
  using assms(1)
proof (induction teams arbitrary: us)
  case Nil
  then show ?case by simp
next
  case (Cons p teams)
  obtain team' members' where p: "p = (team', members')" by (cases p)
  show ?case
  proof (cases "load_members team' members' unit_types us")
    case (Inl e)
    then show ?thesis using p by simp
  next
    case (Inr us1)
    have "p \<noteq> (team, members)"
      using load_members_fails [where unit_types = unit_types and name = name and m = m
          and members = members and team = team and us = us] assms(2,3,4) Inr p
      by auto
    with Cons.prems have "(team, members) \<in> set teams" by simp
    from Cons.IH [OF this, of us1] Inr p show ?thesis by simp
  qed
qed

subsection \<open>A team member of an unregistered type\<close>

lemmas load_defs = load_def UnitType_of_stats_def Unit_init_def soldier_stats_def archer_stats_def

text \<open>
  C9, as amended. Let some member \<open>m\<close> of some team name a type that is not a key of
  \<open>units\<close>. Then loading fails with one of the fatal errors, before any state of the
  simulation is built, and the exit status is 1. The error is the first one that the
  loading meets: it is the unknown-type error, naming the type and the team, whenever no
  earlier check fails, that is, when \<open>units\<close> is present and not empty, every unit type
  has its five fields, every member before \<open>m\<close> (in the teams before its own and before
  it in its own team) is accepted, and \<open>m\<close> itself has the fields \<open>x\<close> and \<open>y\<close>.
\<close>

theorem unknown_unit_type_is_fatal:
  assumes teams: "teams_raw data = Some (before @ (team, ok @ m # rest) # after)"
    and name: "m_name m = Some name"
    and absent: "name \<notin> fst ` set (case units_raw data of None \<Rightarrow> [] | Some d \<Rightarrow> d)"
  shows "\<exists>e. load data = Inl e \<and> main data = Some (LoadFailed e) \<and> exit_status e = 1 \<and>
           ((\<exists>utr unit_types. units_raw data = Some utr \<and> utr \<noteq> [] \<and>
                parse_unit_types utr Map.empty = Inr unit_types \<and>
                (\<forall>(t, ms)\<in>set before. \<forall>m'\<in>set ms. member_ok unit_types m') \<and>
                (\<forall>m'\<in>set ok. member_ok unit_types m')) \<and>
             m_x m \<noteq> None \<and> m_y m \<noteq> None \<longrightarrow>
            e = UnknownUnitType name team \<and>
            error_message e =
              ''ERROR: Unknown unit type '' @ quoted name @ '' in team '' @ quoted team)"
proof -
  let ?utr = "case units_raw data of None \<Rightarrow> [] | Some d \<Rightarrow> d"
  let ?teams = "before @ (team, ok @ m # rest) # after"
  have fails: "\<exists>e. load data = Inl e"
  proof (cases "?utr = []")
    case True
    then show ?thesis by (simp add: load_def)
  next
    case ne: False
    show ?thesis
    proof (cases "parse_unit_types ?utr Map.empty")
      case (Inl e)
      then show ?thesis using ne by (simp add: load_def)
    next
      case (Inr unit_types)
      have "dom unit_types = fst ` set ?utr"
        using parse_unit_types_dom [OF Inr] by simp
      with absent have "name \<notin> dom unit_types" by simp
      then have "unit_types name = None" by (simp add: domIff)
      from load_teams_fails [where unit_types = unit_types and name = name and m = m
          and members = "ok @ m # rest" and team = team and teams = ?teams and us = "[]"]
        this name
      obtain e where "load_teams ?teams unit_types [] = Inl e" by auto
      then show ?thesis using ne Inr teams by (simp add: load_def)
    qed
  qed
  then obtain e where e: "load data = Inl e" ..
  have first: "e = UnknownUnitType name team"
    if u: "units_raw data = Some utr" "utr \<noteq> []" "parse_unit_types utr Map.empty = Inr unit_types"
      and b: "\<forall>(t, ms)\<in>set before. \<forall>m'\<in>set ms. member_ok unit_types m'"
      and o: "\<forall>m'\<in>set ok. member_ok unit_types m'"
      and xy: "m_x m \<noteq> None" "m_y m \<noteq> None"
    for utr unit_types
  proof -
    have "dom unit_types = fst ` set utr"
      using parse_unit_types_dom [OF u(3)] by simp
    with absent u(1) have "name \<notin> dom unit_types" by simp
    then have un: "unit_types name = None" by (simp add: domIff)
    from load_teams_ok [OF b, of "(team, ok @ m # rest) # after" "[]"]
    obtain us1 where 1: "load_teams ?teams unit_types [] =
        load_teams ((team, ok @ m # rest) # after) unit_types us1" by blast
    from load_members_ok [OF o, of team "m # rest" us1]
    obtain us2 where 2: "load_members team (ok @ m # rest) unit_types us1 =
        load_members team (m # rest) unit_types us2" by blast
    have 3: "load_members team (m # rest) unit_types us2 = Inl (UnknownUnitType name team)"
      using load_members_unknown [where m = m and name = name and unit_types = unit_types
          and team = team and rest = rest and us = us2] name xy un
      by blast
    have "load_teams ?teams unit_types [] = Inl (UnknownUnitType name team)"
      by (simp only: 1 load_teams.simps 2 3 sum.case)
    then have "load data = Inl (UnknownUnitType name team)"
      using u teams by (simp add: load_def)
    with e show ?thesis by simp
  qed
  have "main data = Some (LoadFailed e)" using e by (simp add: main_def)
  moreover have "exit_status e = 1" by (simp add: exit_status_def)
  moreover have "(\<exists>utr unit_types. units_raw data = Some utr \<and> utr \<noteq> [] \<and>
                parse_unit_types utr Map.empty = Inr unit_types \<and>
                (\<forall>(t, ms)\<in>set before. \<forall>m'\<in>set ms. member_ok unit_types m') \<and>
                (\<forall>m'\<in>set ok. member_ok unit_types m')) \<and>
             m_x m \<noteq> None \<and> m_y m \<noteq> None \<longrightarrow>
            e = UnknownUnitType name team \<and>
            error_message e =
              ''ERROR: Unknown unit type '' @ quoted name @ '' in team '' @ quoted team"
    using first by auto
  ultimately show ?thesis using e by blast
qed

text \<open>A complete member of the type \<open>ghost\<close> after two accepted members.\<close>

theorem unknown_unit_type_is_fatal_witness:
  "teams_raw ghost_config2 =
     Some ([(''blue'', [\<lparr>m_name = Some ''soldier'', m_x = Some 3, m_y = Some 0\<rparr>])] @
           (''red'', [\<lparr>m_name = Some ''soldier'', m_x = Some 0, m_y = Some 0\<rparr>] @
                     \<lparr>m_name = Some ''ghost'', m_x = Some 1, m_y = Some 1\<rparr> # []) # []) \<and>
   load ghost_config2 = Inl (UnknownUnitType ''ghost'' ''red'') \<and>
   main ghost_config2 = Some (LoadFailed (UnknownUnitType ''ghost'' ''red''))"
proof -
  let ?m = "\<lparr>m_name = Some ''ghost'', m_x = Some 1, m_y = Some 1\<rparr>"
  have h1: "teams_raw ghost_config2 =
     Some ([(''blue'', [\<lparr>m_name = Some ''soldier'', m_x = Some 3, m_y = Some 0\<rparr>])] @
           (''red'', [\<lparr>m_name = Some ''soldier'', m_x = Some 0, m_y = Some 0\<rparr>] @ ?m # []) # [])"
    by (simp add: ghost_config2_def)
  have h2: "m_name ?m = Some ''ghost''" by simp
  have h3: "''ghost'' \<notin> fst ` set (case units_raw ghost_config2 of None \<Rightarrow> [] | Some d \<Rightarrow> d)"
    by (simp add: ghost_config2_def)
  from unknown_unit_type_is_fatal [OF h1 h2 h3]
  obtain e where e: "load ghost_config2 = Inl e" "main ghost_config2 = Some (LoadFailed e)"
    by blast
  have "load ghost_config2 = Inl (UnknownUnitType ''ghost'' ''red'')"
    by (simp add: ghost_config2_def load_defs)
  with e h1 show ?thesis by simp
qed

text \<open>
  C9 as stated fails when an earlier check fails first: the second member of team \<open>red\<close>
  names the unregistered type \<open>ghost\<close>, but the first member has no field \<open>y\<close>, and
  the error is the missing field, whose message does not name the type \<open>ghost\<close>.
\<close>

theorem unknown_unit_type_counterexample:
  "map fst (the (units_raw ghost_config)) = [''soldier''] \<and>
   fst (the (teams_raw ghost_config) ! 0) = ''red'' \<and>
   map m_name (snd (the (teams_raw ghost_config) ! 0)) = [Some ''soldier'', Some ''ghost''] \<and>
   load ghost_config = Inl (MissingMemberField ''y'' ''red'') \<and>
   error_message (MissingMemberField ''y'' ''red'') =
     ''ERROR: Missing field '' @ quoted ''y'' @ '' for a member of team '' @ quoted ''red''"
  by (simp add: ghost_config_def load_defs)

subsection \<open>Health and recorded damage\<close>

lemma dd_add_sum: "sum_list (map snd (dd_add k d ds)) = sum_list (map snd ds) + d"
  by (induction ds) auto

lemma sum_list_update_real:
  "k < length xs \<Longrightarrow> sum_list (xs[k := v]) = sum_list xs + v - (xs ! k :: real)"
proof (induction xs arbitrary: k)
  case Nil
  then show ?case by simp
next
  case (Cons a xs)
  then show ?case by (cases k) simp_all
qed

lemma sum_list_health_update:
  assumes "k < length us"
  shows "sum_list (map health (us[k := v])) = sum_list (map health us) + health v - health (us ! k)"
  using assms by (simp add: map_update sum_list_update_real)

lemma attack_total_health:
  assumes "i < length (units s)" "j < length (units s)" "i \<noteq> j"
  shows "sum_list (map health (units (attack i j t s))) =
         sum_list (map health (units s)) - weapon_damage (units s ! i)"
  using assms by (simp add: attack_def Let_def sum_list_health_update)

lemma move_total_health:
  assumes "i < length us"
  shows "sum_list (map health (us[i := move_toward_origin (us ! i) dt])) = sum_list (map health us)"
  using assms by (simp add: sum_list_health_update move_toward_origin_fields)

text \<open>The damage recorded and the health present add up to the same value after a turn.\<close>

lemma unit_turn_conserves:
  assumes k: "k < length (units s)" and al: "set alive \<subseteq> {..<length (units s)}"
  shows "sum_list (map snd (damage_stats (unit_turn dt t alive k s))) +
         sum_list (map health (units (unit_turn dt t alive k s))) =
         sum_list (map snd (damage_stats s)) + sum_list (map health (units s))"
proof (cases rule: unit_turn_cases [of s k dt t alive])
  case skipped
  then show ?thesis by simp
next
  case (idle j d)
  then show ?thesis by simp
next
  case (attacks j d)
  from nearest_scan_SomeD(1,2) [OF attacks(2)] al
  have j: "j < length (units s)" "k \<noteq> j" by auto
  show ?thesis
    by (simp add: attacks(5) attack_total_health [OF k j] attack_other_fields dd_add_sum)
next
  case moves
  show ?thesis
    by (simp add: moves(3) move_total_health [OF k])
qed

lemma turns_induct:
  assumes "set ks \<subseteq> {..<length (units s)}" and "P s"
    and "\<And>k c. k \<in> set ks \<Longrightarrow> length (units c) = length (units s) \<Longrightarrow> P c \<Longrightarrow>
           P (unit_turn dt t alive k c) \<and>
           length (units (unit_turn dt t alive k c)) = length (units s)"
  shows "P (fold (unit_turn dt t alive) ks s) \<and>
         length (units (fold (unit_turn dt t alive) ks s)) = length (units s)"
proof -
  have "P (fold (unit_turn dt t alive) ks' c) \<and>
         length (units (fold (unit_turn dt t alive) ks' c)) = length (units s)"
    if "set ks' \<subseteq> set ks" "P c" "length (units c) = length (units s)" for c ks'
    using that
  proof (induction ks' arbitrary: c)
    case Nil
    then show ?case by simp
  next
    case (Cons k ks')
    from Cons.prems have "k \<in> set ks" by simp
    from assms(3) [OF this Cons.prems(3,2)] Cons.prems(1) Cons.IH [of "unit_turn dt t alive k c"]
    show ?case by simp
  qed
  from this [of ks s] assms(2) show ?thesis by simp
qed

lemma snapshot_indices: "set (alive_snapshot us) \<subseteq> {..<length us}"
  by (auto simp: alive_snapshot_set)

lemma resolver_conserves:
  assumes "set alive \<subseteq> {..<length (units s)}"
  shows "sum_list (map snd (damage_stats (combat_resolver dt t alive s))) +
         sum_list (map health (units (combat_resolver dt t alive s))) =
         sum_list (map snd (damage_stats s)) + sum_list (map health (units s))"
proof -
  let ?P = "\<lambda>c::sim_state. sum_list (map snd (damage_stats c)) + sum_list (map health (units c)) =
         sum_list (map snd (damage_stats s)) + sum_list (map health (units s))"
  have "?P (fold (unit_turn dt t alive) alive s) \<and>
        length (units (fold (unit_turn dt t alive) alive s)) = length (units s)"
  proof (rule turns_induct [OF assms, where P = ?P])
    show "?P s" by simp
  next
    fix k c assume k: "k \<in> set alive" and len: "length (units c) = length (units s)" and P: "?P c"
    have k': "k < length (units c)" and al: "set alive \<subseteq> {..<length (units c)}"
      using k assms len by auto
    show "?P (unit_turn dt t alive k c) \<and> length (units (unit_turn dt t alive k c)) = length (units s)"
      using unit_turn_conserves [OF k' al, of dt t] unit_turn_frame(1) [OF k' al, of dt t] P len
      by simp
  qed
  then show ?thesis by (simp add: combat_resolver_def)
qed

lemma resolver_static:
  assumes "set alive \<subseteq> {..<length (units s)}"
  shows "list_all2 stats_unchanged (units s) (units (combat_resolver dt t alive s))"
  using turns_frame [OF assms assms, of dt t]
  by (simp add: combat_resolver_def list_all2_conv_all_nth)

lemma tick_cases:
  obtains (terminal) "card (team_name ` {u \<in> set (units s). is_alive u}) \<le> 1"
      "units (tick s) = units s" "damage_stats (tick s) = damage_stats s"
      "\<not> simulation_running (tick s)" "frame_counter (tick s) = frame_counter s + 1"
  | (continues) "\<not> card (team_name ` {u \<in> set (units s). is_alive u}) \<le> 1"
      "tick s = combat_resolver FIXED_DT (real (frame_counter s) * FIXED_DT)
           (alive_snapshot (units s)) (s\<lparr>frame_counter := frame_counter s + 1\<rparr>)"
proof (cases "card (team_name ` {u \<in> set (units s). is_alive u}) \<le> 1")
  case True
  note t = tick_terminates [OF True]
  have "units (tick s) = units s" "damage_stats (tick s) = damage_stats s"
      "\<not> simulation_running (tick s)" "frame_counter (tick s) = frame_counter s + 1"
    by (subst t, simp)+
  with True terminal show ?thesis by blast
next
  case False
  with tick_continues [OF False] continues show ?thesis by blast
qed

lemma stats_unchanged_all2_refl: "list_all2 stats_unchanged us us"
  by (simp add: list_all2_conv_all_nth stats_unchanged_refl)

lemma stats_unchanged_all2_trans:
  "list_all2 stats_unchanged us vs \<Longrightarrow> list_all2 stats_unchanged vs ws \<Longrightarrow>
   list_all2 stats_unchanged us ws"
proof -
  assume a: "list_all2 stats_unchanged us vs" "list_all2 stats_unchanged vs ws"
  have "stats_unchanged (us ! i) (ws ! i)" if "i < length us" for i
    using a that stats_unchanged_trans [of "us ! i" "vs ! i" "ws ! i"]
    by (simp add: list_all2_conv_all_nth)
  with a show ?thesis by (simp add: list_all2_conv_all_nth)
qed

lemma tick_conserves:
  "sum_list (map snd (damage_stats (tick s))) + sum_list (map health (units (tick s))) =
   sum_list (map snd (damage_stats s)) + sum_list (map health (units s))"
proof (cases rule: tick_cases [of s])
  case terminal
  then show ?thesis by simp
next
  case continues
  show ?thesis
    using resolver_conserves [of "alive_snapshot (units s)" "s\<lparr>frame_counter := frame_counter s + 1\<rparr>"]
      snapshot_indices [of "units s"]
    by (simp add: continues(2))
qed

lemma tick_static: "list_all2 stats_unchanged (units s) (units (tick s))"
proof (cases rule: tick_cases [of s])
  case terminal
  then show ?thesis by (simp add: stats_unchanged_all2_refl)
next
  case continues
  show ?thesis
    using resolver_static [of "alive_snapshot (units s)" "s\<lparr>frame_counter := frame_counter s + 1\<rparr>"]
      snapshot_indices [of "units s"]
    by (simp add: continues(2))
qed

lemma run_ticks_conserves:
  "sum_list (map snd (damage_stats (run_ticks n s))) + sum_list (map health (units (run_ticks n s))) =
   sum_list (map snd (damage_stats s)) + sum_list (map health (units s))"
  by (induction n arbitrary: s) (simp_all add: tick_conserves)

lemma run_ticks_static: "list_all2 stats_unchanged (units s) (units (run_ticks n s))"
proof (induction n arbitrary: s)
  case 0
  then show ?case by (simp add: stats_unchanged_all2_refl)
next
  case (Suc n)
  show ?case
    using stats_unchanged_all2_trans [OF tick_static Suc.IH [of "tick s"]]
    by (simp add: stats_unchanged_all2_refl)
qed

lemma static_type_names:
  "list_all2 stats_unchanged us vs \<Longrightarrow> map type_name vs = map type_name us"
  by (auto simp: list_all2_conv_all_nth stats_unchanged_def intro: nth_equalityI)

text \<open>Every unit that the loading appends is fresh.\<close>

lemma Unit_init_fresh:
  "Unit_init name team px py unit_types = Some u \<Longrightarrow> fresh_from unit_types u"
  by (auto simp: Unit_init_def fresh_from_def split: option.splits)

lemma load_members_fresh:
  "load_members team members unit_types us = Inr us' \<Longrightarrow>
   \<forall>u\<in>set us. fresh_from unit_types u \<Longrightarrow> \<forall>u\<in>set us'. fresh_from unit_types u"
proof (induction members arbitrary: us)
  case Nil
  then show ?case by simp
next
  case (Cons m members)
  from Cons.prems(1) obtain name px py u where
    "Unit_init name team px py unit_types = Some u"
    "load_members team members unit_types (us @ [u]) = Inr us'"
    by (auto split: option.splits if_splits)
  with Cons.IH [of "us @ [u]"] Cons.prems(2) Unit_init_fresh show ?case by auto
qed

lemma load_teams_fresh:
  "load_teams teams unit_types us = Inr us' \<Longrightarrow>
   \<forall>u\<in>set us. fresh_from unit_types u \<Longrightarrow> \<forall>u\<in>set us'. fresh_from unit_types u"
proof (induction teams arbitrary: us)
  case Nil
  then show ?case by simp
next
  case (Cons p teams)
  obtain team members where p: "p = (team, members)" by (cases p)
  from Cons.prems(1) p obtain us1 where 1: "load_members team members unit_types us = Inr us1"
    "load_teams teams unit_types us1 = Inr us'"
    by (auto split: sum.splits)
  from load_members_fresh [OF 1(1) Cons.prems(2)] Cons.IH [OF 1(2)] show ?case by blast
qed

lemma load_fresh:
  assumes "load data = Inr (unit_types, us)"
  shows "\<forall>u\<in>set us. fresh_from unit_types u"
proof -
  from assms obtain teams where "load_teams teams unit_types [] = Inr us"
    by (auto simp: load_def Let_def split: if_splits sum.splits)
  from load_teams_fresh [OF this] show ?thesis by simp
qed

text \<open>
  In the exact arithmetic of the model, for a configuration that loads, the values of the
  damage table add up after any number of iterations of the loop to the sum over the units
  of the maximal health of the type minus the current health. The doubles of the program
  round the health and the table entry of an attack separately, so this equality is one
  of the model and not of the program.
\<close>

lemma run_ticks_conservation:
  assumes "load data = Inr (unit_types, us)"
  shows "sum_list (map snd (damage_stats (run_ticks n (initial_state us)))) =
           (\<Sum>u\<leftarrow>units (run_ticks n (initial_state us)).
              max_health (the (unit_types (type_name u))) - health u) \<and>
         (\<forall>u\<in>set (units (run_ticks n (initial_state us))). type_name u \<in> dom unit_types)"
proof -
  let ?s = "run_ticks n (initial_state us)"
  let ?mh = "\<lambda>tn. max_health (the (unit_types tn))"
  note fresh = load_fresh [OF assms]
  have tn: "map type_name (units ?s) = map type_name us"
    using static_type_names [OF run_ticks_static [of "initial_state us" n]]
    by (simp add: initial_state_def)
  have h0: "map health us = map ?mh (map type_name us)"
    using fresh by (auto simp: fresh_from_def split: option.splits)
  have cons: "sum_list (map snd (damage_stats ?s)) + sum_list (map health (units ?s)) =
              sum_list (map health us)"
    using run_ticks_conserves [of n "initial_state us"] by (simp add: initial_state_def)
  have "(\<Sum>u\<leftarrow>units ?s. ?mh (type_name u) - health u) =
        sum_list (map ?mh (map type_name (units ?s))) - sum_list (map health (units ?s))"
    by (simp add: sum_list_subtractf comp_def)
  also have "\<dots> = sum_list (map health us) - sum_list (map health (units ?s))"
    by (simp only: tn h0)
  also have "\<dots> = sum_list (map snd (damage_stats ?s))"
    using cons by simp
  finally have 1: "sum_list (map snd (damage_stats ?s)) =
      (\<Sum>u\<leftarrow>units ?s. ?mh (type_name u) - health u)" by simp
  have "set (map type_name (units ?s)) \<subseteq> dom unit_types"
    unfolding tn using fresh by (auto simp: fresh_from_def split: option.splits)
  then have 2: "\<forall>u\<in>set (units ?s). type_name u \<in> dom unit_types" by auto
  from 1 2 show ?thesis ..
qed

subsection \<open>The attack in double arithmetic\<close>












subsection \<open>Conservation of damage\<close>

text \<open>The duel and the tanks load to the units above.\<close>

lemma duel_load:
  "load duel_config =
     Inr ([''soldier'' \<mapsto> \<lparr>max_health = 10, ut_move_speed = 1, ut_weapon_range = 5,
                              ut_weapon_damage = 10, ut_weapon_cooldown = 1\<rparr>,
           ''archer'' \<mapsto> \<lparr>max_health = 10, ut_move_speed = 1, ut_weapon_range = 5,
                             ut_weapon_damage = 4, ut_weapon_cooldown = 1\<rparr>],
          duel_units)"
  by (simp add: duel_config_def duel_units_def load_defs)





subsection \<open>Bounds that decrease\<close>

text \<open>
  The lemmas of this subsection are about the exact arithmetic of the model. In it health
  only falls, which gives the count of the teams below, and the loop ends when every
  weapon range is at least \<open>3 \<cdot> 10\<^sup>-\<^sup>6\<close>. The second does not carry over to the doubles
  of the program, in which a hit or a step below half the spacing of the doubles is
  absorbed.
\<close>

lemma hits_left_mono:
  assumes "0 < \<delta>" "health v \<le> health u"
  shows "hits_left \<delta> v \<le> hits_left \<delta> u"
proof -
  have "health v / \<delta> \<le> health u / \<delta>"
    using assms by (simp add: divide_right_mono)
  then have "\<lceil>health v / \<delta>\<rceil> \<le> \<lceil>health u / \<delta>\<rceil>"
    by (rule ceiling_mono)
  then show ?thesis
    unfolding hits_left_def by (rule nat_mono)
qed

lemma hits_left_hit:
  assumes d: "0 < \<delta>" and al: "0 < health u" and hit: "health v \<le> health u - \<delta>"
  shows "hits_left \<delta> v < hits_left \<delta> u"
proof -
  have "health v / \<delta> \<le> health u / \<delta> - 1"
    using d hit by (simp add: field_simps)
  then have "\<lceil>health v / \<delta>\<rceil> \<le> \<lceil>health u / \<delta>\<rceil> - 1"
    by (metis ceiling_diff_one ceiling_mono)
  moreover have "0 < \<lceil>health u / \<delta>\<rceil>"
    using d al by (simp add: ceiling_less_iff)
  ultimately show ?thesis
    by (simp add: hits_left_def)
qed

lemma hits_left_dead: "0 < \<delta> \<Longrightarrow> hits_left \<delta> u = 0 \<longleftrightarrow> \<not> is_alive u"
  by (auto simp: hits_left_def is_alive_def ceiling_le_iff field_simps not_less)

lemma wait_left_elapsed:
  assumes "wait_left n u = 0"
  shows "real n * FIXED_DT - last_attack_time u \<ge> weapon_cooldown u"
proof -
  have "nat \<lceil>(last_attack_time u + weapon_cooldown u) * 60\<rceil> \<le> n"
    using assms by (simp add: wait_left_def)
  then have "\<lceil>(last_attack_time u + weapon_cooldown u) * 60\<rceil> \<le> int n"
    by linarith
  then have "(last_attack_time u + weapon_cooldown u) * 60 \<le> real_of_int (int n)"
    by (simp only: ceiling_le_iff)
  then show ?thesis by (simp add: FIXED_DT_def)
qed

lemma wait_left_Suc:
  assumes "last_attack_time v = last_attack_time u" "weapon_cooldown v = weapon_cooldown u"
  shows "wait_left (Suc n) v \<le> wait_left n u"
    and "0 < wait_left n u \<Longrightarrow> wait_left (Suc n) v < wait_left n u"
  using assms by (simp_all add: wait_left_def)

lemma steps_left_move:
  assumes ms: "0 < move_speed u"
  shows "steps_left (move_toward_origin u FIXED_DT) \<le> steps_left u"
    and "\<not> in_box u \<Longrightarrow> steps_left (move_toward_origin u FIXED_DT) < steps_left u"
proof -
  let ?v = "move_toward_origin u FIXED_DT"
  let ?step = "move_speed u * FIXED_DT"
  have step: "0 < ?step" using ms by (simp add: FIXED_DT_def)
  have strict: "steps_left ?v < steps_left u" if out: "\<not> in_box u"
  proof (cases "in_box ?v")
    case True
    then show ?thesis using out by (simp add: steps_left_def)
  next
    case False
    have out': "\<not> (\<bar>x u\<bar> < 1 / 10 ^ 6 \<and> \<bar>y u\<bar> < 1 / 10 ^ 6)"
      using out by (simp add: in_box_def)
    have lt: "?step < hypot (x u) (y u)"
    proof (rule ccontr)
      assume "\<not> ?step < hypot (x u) (y u)"
      then have "hypot (x u) (y u) \<le> ?step" by simp
      from move_snap [OF out' this] have "in_box ?v" by (simp add: in_box_def)
      with False show False by simp
    qed
    have d: "hypot (x ?v) (y ?v) = hypot (x u) (y u) - ?step"
      by (rule move_partial [OF out' lt])
    have "hypot (x ?v) (y ?v) / ?step = hypot (x u) (y u) / ?step - 1"
    proof -
      have "?step \<noteq> 0" using step by (metis less_irrefl)
      then have "?step / ?step = 1" by (rule divide_self)
      then show ?thesis by (simp only: d diff_divide_distrib)
    qed
    then have c: "\<lceil>hypot (x ?v) (y ?v) / ?step\<rceil> = \<lceil>hypot (x u) (y u) / ?step\<rceil> - 1"
      by simp
    have "0 < hypot (x u) (y u) / ?step"
      using step lt by simp
    then have "0 < \<lceil>hypot (x u) (y u) / ?step\<rceil>"
      by (simp add: ceiling_less_iff)
    with c show ?thesis
      using False out by (simp add: steps_left_def move_toward_origin_fields)
  qed
  show "steps_left ?v \<le> steps_left u"
  proof (cases "in_box u")
    case True
    then have "?v = u" by (simp add: in_box_def move_inside_box)
    then show ?thesis by simp
  next
    case False
    from strict [OF this] show ?thesis by simp
  qed
  show "\<not> in_box u \<Longrightarrow> steps_left ?v < steps_left u" by (rule strict)
qed

lemma steps_left_cong:
  "x v = x u \<Longrightarrow> y v = y u \<Longrightarrow> move_speed v = move_speed u \<Longrightarrow> steps_left v = steps_left u"
  by (simp add: steps_left_def in_box_def)

lemma box_distance:
  assumes "in_box u" "in_box v"
  shows "distance_to u v < 3 / 10 ^ 6"
proof -
  let ?dx = "x u - x v" and ?dy = "y u - y v"
  have b: "\<bar>x u\<bar> < 1 / 10 ^ 6" "\<bar>y u\<bar> < 1 / 10 ^ 6" "\<bar>x v\<bar> < 1 / 10 ^ 6" "\<bar>y v\<bar> < 1 / 10 ^ 6"
    using assms by (simp_all add: in_box_def)
  have dx: "\<bar>?dx\<bar> < 2 / 10 ^ 6"
    using b(1,3) by linarith
  have dy: "\<bar>?dy\<bar> < 2 / 10 ^ 6"
    using b(2,4) by linarith
  have "\<bar>?dx\<bar>\<^sup>2 < (2 / 10 ^ 6)\<^sup>2"
    by (rule power_strict_mono [OF dx]) simp_all
  moreover have "\<bar>?dy\<bar>\<^sup>2 < (2 / 10 ^ 6)\<^sup>2"
    by (rule power_strict_mono [OF dy]) simp_all
  ultimately have "\<bar>?dx\<bar>\<^sup>2 < (2 / 10 ^ 6)\<^sup>2" "\<bar>?dy\<bar>\<^sup>2 < (2 / 10 ^ 6)\<^sup>2"
    by blast+
  then have "?dx\<^sup>2 < (2 / 10 ^ 6)\<^sup>2" "?dy\<^sup>2 < (2 / 10 ^ 6)\<^sup>2"
    by (simp_all only: power2_abs)
  then have "?dx\<^sup>2 + ?dy\<^sup>2 < (3 / 10 ^ 6)\<^sup>2"
    by (simp add: power2_eq_square)
  then have "sqrt (?dx\<^sup>2 + ?dy\<^sup>2) < 3 / 10 ^ 6"
    by (intro real_less_lsqrt) simp_all
  then show ?thesis by (simp add: distance_to_def hypot_def Let_def)
qed

lemma battle_ready_nth:
  assumes "battle_ready \<delta> us" "i < length us"
  shows "0 < \<delta>" "\<delta> \<le> weapon_damage (us ! i)" "0 < move_speed (us ! i)"
  using assms nth_mem [OF assms(2)] by (auto simp: battle_ready_def)

lemma battle_ready_static:
  assumes "list_all2 stats_unchanged us vs" "battle_ready \<delta> us"
  shows "battle_ready \<delta> vs"
proof -
  have "\<delta> \<le> weapon_damage v \<and> 0 < move_speed v"
    if "v \<in> set vs" for v
  proof -
    from that obtain i where i: "i < length vs" "vs ! i = v" by (auto simp: in_set_conv_nth)
    with assms(1) have "i < length us" "stats_unchanged (us ! i) v"
      by (auto simp: list_all2_conv_all_nth)
    with battle_ready_nth [OF assms(2), of i] show ?thesis
      by (simp add: stats_unchanged_def)
  qed
  with assms(2) show ?thesis by (simp add: battle_ready_def)
qed

text \<open>
  A turn lowers no health and no number of steps left; either it leaves every health and
  last attack time as it was, or it takes at least \<open>\<delta>\<close> from the health of a unit of the
  snapshot.
\<close>

lemma unit_turn_effect:
  fixes t :: real
  assumes k: "k < length (units c)" and al: "set alive \<subseteq> {..<length (units c)}"
    and ready: "battle_ready \<delta> (units c)"
  defines "c' \<equiv> unit_turn FIXED_DT t alive k c"
  shows "\<forall>i<length (units c). health (units c' ! i) \<le> health (units c ! i)"
    and "\<forall>i<length (units c). steps_left (units c' ! i) \<le> steps_left (units c ! i)"
    and "(\<forall>i<length (units c). health (units c' ! i) = health (units c ! i) \<and>
            last_attack_time (units c' ! i) = last_attack_time (units c ! i)) \<or>
         (\<exists>j\<in>set alive. health (units c' ! j) \<le> health (units c ! j) - \<delta>)"
proof -
  note r = battle_ready_nth [OF ready k]
  have "(\<forall>i<length (units c). health (units c' ! i) \<le> health (units c ! i)) \<and>
    (\<forall>i<length (units c). steps_left (units c' ! i) \<le> steps_left (units c ! i)) \<and>
    ((\<forall>i<length (units c). health (units c' ! i) = health (units c ! i) \<and>
            last_attack_time (units c' ! i) = last_attack_time (units c ! i)) \<or>
         (\<exists>j\<in>set alive. health (units c' ! j) \<le> health (units c ! j) - \<delta>))"
  proof (cases rule: unit_turn_cases [of c k FIXED_DT t alive])
    case skipped
    then show ?thesis by (simp add: c'_def)
  next
    case (idle j d)
    then show ?thesis by (simp add: c'_def)
  next
    case (attacks j d)
    from nearest_scan_SomeD(1,2) [OF attacks(2)] al
    have j: "j < length (units c)" "k \<noteq> j" and jal: "j \<in> set alive" by auto
    have c': "c' = attack k j t c" by (simp add: c'_def attacks(5))
    have 1: "\<forall>i<length (units c). health (units c' ! i) \<le> health (units c ! i)"
      using r(1,2) by (simp add: c' attack_nth [OF k j])
    have "steps_left (units c' ! i) = steps_left (units c ! i)" for i
      by (rule steps_left_cong) (simp_all add: c' attack_nth [OF k j])
    then have 2: "\<forall>i<length (units c). steps_left (units c' ! i) \<le> steps_left (units c ! i)"
      by simp
    have 3: "health (units c' ! j) \<le> health (units c ! j) - \<delta>"
      using r(2) j by (simp add: c' attack_nth [OF k j])
    from 1 2 3 jal show ?thesis by blast
  next
    case moves
    have c': "units c' = (units c)[k := move_toward_origin (units c ! k) FIXED_DT]"
      by (simp add: c'_def moves(3))
    have 1: "\<forall>i<length (units c). health (units c' ! i) = health (units c ! i) \<and>
            last_attack_time (units c' ! i) = last_attack_time (units c ! i)"
      using k by (simp add: c' nth_list_update move_toward_origin_fields)
    have 2: "\<forall>i<length (units c). steps_left (units c' ! i) \<le> steps_left (units c ! i)"
      using k steps_left_move(1) [OF r(3)] by (simp add: c' nth_list_update)
    from 1 2 show ?thesis by simp
  qed
  then show "\<forall>i<length (units c). health (units c' ! i) \<le> health (units c ! i)"
    and "\<forall>i<length (units c). steps_left (units c' ! i) \<le> steps_left (units c ! i)"
    and "(\<forall>i<length (units c). health (units c' ! i) = health (units c ! i) \<and>
            last_attack_time (units c' ! i) = last_attack_time (units c ! i)) \<or>
         (\<exists>j\<in>set alive. health (units c' ! j) \<le> health (units c ! j) - \<delta>)"
    by blast+
qed

lemma unit_turn_static:
  assumes "k < length (units c)" "set alive \<subseteq> {..<length (units c)}"
  shows "list_all2 stats_unchanged (units c) (units (unit_turn dt t alive k c))"
  using unit_turn_frame(1,2) [OF assms, where dt = dt and t = t]
  by (simp add: list_all2_conv_all_nth)

lemma turns_effect:
  fixes t :: real
  assumes ks: "set ks \<subseteq> {..<length (units s)}" and al: "set alive \<subseteq> {..<length (units s)}"
    and ready: "battle_ready \<delta> (units s)"
  defines "e \<equiv> fold (unit_turn FIXED_DT t alive) ks s"
  shows "length (units e) = length (units s)"
    and "list_all2 stats_unchanged (units s) (units e)"
    and "\<forall>i<length (units s). health (units e ! i) \<le> health (units s ! i)"
    and "\<forall>i<length (units s). steps_left (units e ! i) \<le> steps_left (units s ! i)"
proof -
  let ?P = "\<lambda>c::sim_state. list_all2 stats_unchanged (units s) (units c) \<and>
     (\<forall>i<length (units s). health (units c ! i) \<le> health (units s ! i)) \<and>
     (\<forall>i<length (units s). steps_left (units c ! i) \<le> steps_left (units s ! i))"
  have "?P e \<and> length (units e) = length (units s)"
    unfolding e_def
  proof (rule turns_induct [OF ks, where P = ?P])
    show "?P s" by (simp add: stats_unchanged_all2_refl)
  next
    fix k c assume kin: "k \<in> set ks" and len: "length (units c) = length (units s)" and P: "?P c"
    have k: "k < length (units c)" and al': "set alive \<subseteq> {..<length (units c)}"
      using kin ks al len by auto
    have rc: "battle_ready \<delta> (units c)"
      using battle_ready_static P ready by blast
    note eff = unit_turn_effect [OF k al' rc, of t]
    note st = unit_turn_static [OF k al', where dt = FIXED_DT and t = t]
    have "list_all2 stats_unchanged (units s) (units (unit_turn FIXED_DT t alive k c))"
      using P st stats_unchanged_all2_trans by blast
    moreover have "\<forall>i<length (units s).
        health (units (unit_turn FIXED_DT t alive k c) ! i) \<le> health (units s ! i)"
      using eff(1) P len by fastforce
    moreover have "\<forall>i<length (units s).
        steps_left (units (unit_turn FIXED_DT t alive k c) ! i) \<le> steps_left (units s ! i)"
      using eff(2) P len by fastforce
    moreover have "length (units (unit_turn FIXED_DT t alive k c)) = length (units s)"
      using unit_turn_frame(1) [OF k al', where dt = FIXED_DT and t = t] len by simp
    ultimately show "?P (unit_turn FIXED_DT t alive k c) \<and>
        length (units (unit_turn FIXED_DT t alive k c)) = length (units s)"
      by blast
  qed
  then show "length (units e) = length (units s)"
    and "list_all2 stats_unchanged (units s) (units e)"
    and "\<forall>i<length (units s). health (units e ! i) \<le> health (units s ! i)"
    and "\<forall>i<length (units s). steps_left (units e ! i) \<le> steps_left (units s ! i)"
    by blast+
qed

text \<open>
  Over the turns of a whole snapshot, either the hits left have become fewer, or no health
  and no last attack time has changed.
\<close>

lemma resolver_hits:
  fixes t :: real
  assumes ready: "battle_ready \<delta> (units s)"
  defines "e \<equiv> combat_resolver FIXED_DT t (alive_snapshot (units s)) s"
  shows "(\<Sum>i<length (units s). hits_left \<delta> (units e ! i)) <
           (\<Sum>i<length (units s). hits_left \<delta> (units s ! i)) \<or>
         (\<forall>i<length (units s). health (units e ! i) = health (units s ! i) \<and>
            last_attack_time (units e ! i) = last_attack_time (units s ! i))"
proof -
  let ?alive = "alive_snapshot (units s)"
  let ?n = "length (units s)"
  let ?D = "\<lambda>c::sim_state. (\<Sum>i<?n. hits_left \<delta> (units c ! i)) < (\<Sum>i<?n. hits_left \<delta> (units s ! i))"
  let ?N = "\<lambda>c::sim_state. \<forall>i<?n. health (units c ! i) = health (units s ! i) \<and>
            last_attack_time (units c ! i) = last_attack_time (units s ! i)"
  let ?P = "\<lambda>c::sim_state. list_all2 stats_unchanged (units s) (units c) \<and> (?D c \<or> ?N c)"
  have al: "set ?alive \<subseteq> {..<?n}" by (rule snapshot_indices)
  have d: "0 < \<delta>" using ready by (simp add: battle_ready_def)
  have "?P (fold (unit_turn FIXED_DT t ?alive) ?alive s) \<and>
        length (units (fold (unit_turn FIXED_DT t ?alive) ?alive s)) = ?n"
  proof (rule turns_induct [OF al, where P = ?P])
    show "?P s" by (simp add: stats_unchanged_all2_refl)
  next
    fix k c assume kin: "k \<in> set ?alive" and len: "length (units c) = ?n" and P: "?P c"
    let ?c' = "unit_turn FIXED_DT t ?alive k c"
    have k: "k < length (units c)" and al': "set ?alive \<subseteq> {..<length (units c)}"
      using kin al len by auto
    have rc: "battle_ready \<delta> (units c)"
      using battle_ready_static P ready by blast
    note eff = unit_turn_effect [OF k al' rc, of t]
    have st: "list_all2 stats_unchanged (units s) (units ?c')"
      using P unit_turn_static [OF k al', where dt = FIXED_DT and t = t]
        stats_unchanged_all2_trans by blast
    have len': "length (units ?c') = ?n"
      using unit_turn_frame(1) [OF k al', where dt = FIXED_DT and t = t] len by simp
    have le: "hits_left \<delta> (units ?c' ! i) \<le> hits_left \<delta> (units c ! i)" if "i < ?n" for i
      using eff(1) that len by (intro hits_left_mono [OF d]) simp
    have "?D ?c' \<or> ?N ?c'"
    proof (cases "?D c")
      case True
      have "(\<Sum>i<?n. hits_left \<delta> (units ?c' ! i)) \<le> (\<Sum>i<?n. hits_left \<delta> (units c ! i))"
        by (rule sum_mono) (simp add: le)
      with True show ?thesis by simp
    next
      case False
      with P have N: "?N c" by blast
      from eff(3) show ?thesis
      proof
        assume "\<forall>i<length (units c). health (units ?c' ! i) = health (units c ! i) \<and>
            last_attack_time (units ?c' ! i) = last_attack_time (units c ! i)"
        with N len have "?N ?c'" by simp
        then show ?thesis ..
      next
        assume "\<exists>j\<in>set ?alive. health (units ?c' ! j) \<le> health (units c ! j) - \<delta>"
        then obtain j where j: "j \<in> set ?alive"
          "health (units ?c' ! j) \<le> health (units c ! j) - \<delta>" by blast
        from j(1) have jn: "j < ?n" and ja: "is_alive (units s ! j)"
          by (simp_all add: alive_snapshot_set)
        have hj: "health (units c ! j) = health (units s ! j)" using N jn by simp
        have "hits_left \<delta> (units ?c' ! j) < hits_left \<delta> (units c ! j)"
          using ja hj j(2) by (intro hits_left_hit [OF d]) (simp_all add: is_alive_def)
        also have "\<dots> = hits_left \<delta> (units s ! j)"
          using hj by (simp add: hits_left_def)
        finally have strict: "hits_left \<delta> (units ?c' ! j) < hits_left \<delta> (units s ! j)" .
        have weak: "hits_left \<delta> (units ?c' ! i) \<le> hits_left \<delta> (units s ! i)" if "i < ?n" for i
        proof -
          have "hits_left \<delta> (units c ! i) = hits_left \<delta> (units s ! i)"
            using N that by (simp add: hits_left_def)
          with le [OF that] show ?thesis by simp
        qed
        have "?D ?c'"
          by (rule sum_strict_mono_ex1) (use weak strict jn in auto)
        then show ?thesis ..
      qed
    qed
    with st len' show "?P ?c' \<and> length (units ?c') = ?n" by blast
  qed
  then show ?thesis by (simp add: e_def combat_resolver_def)
qed

text \<open>
  When the turns of a snapshot leave every health as it was, every unit of the snapshot is
  alive at its turn, and its turn is no attack.
\<close>

lemma quiet_tick_turn:
  fixes t :: real
  assumes ready: "battle_ready \<delta> (units s)"
    and snap: "alive_snapshot (units s) = pre @ i # post"
  defines "alive \<equiv> pre @ i # post"
  defines "mid \<equiv> fold (unit_turn FIXED_DT t alive) pre s"
  assumes quiet: "\<forall>j<length (units s).
      health (units (combat_resolver FIXED_DT t alive s) ! j) = health (units s ! j)"
  shows "is_alive (units mid ! i)"
    and "\<not> (\<exists>j d. nearest_scan (units mid) (units mid ! i) alive None = Some (j, d) \<and>
            d \<le> weapon_range (units mid ! i) \<and>
            t - last_attack_time (units mid ! i) \<ge> weapon_cooldown (units mid ! i))"
proof -
  note sp = snapshot_split [OF snap]
  let ?n = "length (units s)"
  let ?own = "unit_turn FIXED_DT t alive i mid"
  let ?e = "combat_resolver FIXED_DT t alive s"
  have al: "set alive \<subseteq> {..<?n}" using sp(1) by (simp add: alive_def)
  have d: "0 < \<delta>" using ready by (simp add: battle_ready_def)
  note pre = turns_effect [OF sp(5) al ready, of t, folded mid_def]
  have i: "i < length (units mid)" and al1: "set alive \<subseteq> {..<length (units mid)}"
    using sp(2) al pre(1) by simp_all
  have r1: "battle_ready \<delta> (units mid)"
    using battle_ready_static [OF pre(2) ready] .
  note own = unit_turn_effect [OF i al1 r1, of t]
  have len2: "length (units ?own) = ?n"
    using unit_turn_frame(1) [OF i al1, where dt = FIXED_DT and t = t] pre(1) by simp
  have r2: "battle_ready \<delta> (units ?own)"
    using battle_ready_static [OF unit_turn_static [OF i al1] r1] .
  have post_in: "set post \<subseteq> {..<length (units ?own)}" and al2: "set alive \<subseteq> {..<length (units ?own)}"
    using sp(6) al len2 by simp_all
  note post = turns_effect [OF post_in al2 r2, of t]
  have e: "?e = fold (unit_turn FIXED_DT t alive) post ?own"
    by (simp add: alive_def mid_def resolver_split)
  have chain: "health (units s ! j) \<le> health (units ?own ! j) \<and>
               health (units ?own ! j) \<le> health (units mid ! j) \<and>
               health (units mid ! j) \<le> health (units s ! j)" if "j < ?n" for j
    using that quiet post(3) own(1) pre(3) pre(1) len2 by (simp add: e)
  have same: "health (units ?own ! j) = health (units mid ! j)"
    "health (units mid ! j) = health (units s ! j)" if "j < ?n" for j
    using chain [OF that] by simp_all
  show alive_mid: "is_alive (units mid ! i)"
    using sp(7) same(2) [OF sp(2)] by (simp add: is_alive_def)
  show "\<not> (\<exists>j d. nearest_scan (units mid) (units mid ! i) alive None = Some (j, d) \<and>
            d \<le> weapon_range (units mid ! i) \<and>
            t - last_attack_time (units mid ! i) \<ge> weapon_cooldown (units mid ! i))"
  proof
    assume "\<exists>j d. nearest_scan (units mid) (units mid ! i) alive None = Some (j, d) \<and>
            d \<le> weapon_range (units mid ! i) \<and>
            t - last_attack_time (units mid ! i) \<ge> weapon_cooldown (units mid ! i)"
    then obtain j dd where scan: "nearest_scan (units mid) (units mid ! i) alive None = Some (j, dd)"
      and rng: "dd \<le> weapon_range (units mid ! i)"
      and cd: "t - last_attack_time (units mid ! i) \<ge> weapon_cooldown (units mid ! i)"
      by blast
    have att: "?own = attack i j t mid"
      using alive_mid scan rng cd by (simp add: unit_turn_def)
    from nearest_scan_SomeD(1,2) [OF scan] al1
    have j: "j < length (units mid)" "i \<noteq> j" by auto
    have "health (units ?own ! j) = health (units mid ! j) - weapon_damage (units mid ! i)"
      using j by (simp add: att attack_nth [OF i j])
    moreover have "\<delta> \<le> weapon_damage (units mid ! i)"
      by (rule battle_ready_nth(2) [OF r1 i])
    ultimately have "health (units ?own ! j) < health (units mid ! j)"
      using d by simp
    with same(1) [of j] j(1) pre(1) show False by simp
  qed
qed

text \<open>If moreover the cooldown of the unit has elapsed, its turn is a move.\<close>

lemma quiet_tick_moves:
  fixes t :: real
  assumes ready: "battle_ready \<delta> (units s)"
    and snap: "alive_snapshot (units s) = pre @ i # post"
  defines "alive \<equiv> pre @ i # post"
  defines "mid \<equiv> fold (unit_turn FIXED_DT t alive) pre s"
  assumes quiet: "\<forall>j<length (units s).
      health (units (combat_resolver FIXED_DT t alive s) ! j) = health (units s ! j)"
    and elapsed: "t - last_attack_time (units s ! i) \<ge> weapon_cooldown (units s ! i)"
  shows "steps_left (units (combat_resolver FIXED_DT t alive s) ! i) =
           steps_left (move_toward_origin (units s ! i) FIXED_DT)"
    and "\<forall>k\<in>set alive. team_name (units mid ! k) \<noteq> team_name (units mid ! i) \<longrightarrow>
           distance_to (units mid ! i) (units mid ! k) > weapon_range (units mid ! i)"
proof -
  note sp = snapshot_split [OF snap]
  note d = own_turn_decides [OF snap, of FIXED_DT t, folded alive_def, folded mid_def]
  note q = quiet_tick_turn [OF ready snap, of t, folded alive_def, folded mid_def, OF quiet]
  let ?u = "units mid ! i"
  let ?own = "unit_turn FIXED_DT t alive i mid"
  have i: "i < length (units mid)" using sp(2) d(1) by simp
  have cd: "t - last_attack_time ?u \<ge> weapon_cooldown ?u"
    using elapsed d(4,5) by (simp add: stats_unchanged_def)
  have far: "\<not> dd \<le> weapon_range ?u"
    if "nearest_scan (units mid) ?u alive None = Some (j, dd)" for j dd
    using q(2) that cd by blast
  show "\<forall>k\<in>set alive. team_name (units mid ! k) \<noteq> team_name ?u \<longrightarrow>
           distance_to ?u (units mid ! k) > weapon_range ?u"
  proof (intro ballI impI)
    fix k assume k: "k \<in> set alive" "team_name (units mid ! k) \<noteq> team_name ?u"
    show "distance_to ?u (units mid ! k) > weapon_range ?u"
    proof (cases "nearest_scan (units mid) ?u alive None")
      case None
      from nearest_scan_NoneD [OF None k(1)] k(2) show ?thesis by simp
    next
      case (Some p)
      obtain j dd where p: "p = (j, dd)" by (cases p)
      from Some p have scan: "nearest_scan (units mid) ?u alive None = Some (j, dd)" by simp
      from nearest_scan_SomeD(4) [OF scan k] far [OF scan] show ?thesis by simp
    qed
  qed
  have own: "?own = mid\<lparr>units := (units mid)[i := move_toward_origin ?u FIXED_DT]\<rparr>"
    using q(1) far
    by (cases "nearest_scan (units mid) ?u alive None") (auto simp: unit_turn_def)
  have ms: "move_speed ?u = move_speed (units s ! i)"
    using d(5) by (simp add: stats_unchanged_def)
  note mc = move_toward_origin_cong [OF d(2,3) ms, of FIXED_DT]
  have oi: "units ?own ! i = move_toward_origin ?u FIXED_DT"
    using i by (simp add: own)
  have len: "length (units ?own) = length (units mid)" by (simp add: own)
  have al: "set alive \<subseteq> {..<length (units ?own)}" and po: "set post \<subseteq> {..<length (units ?own)}"
    using sp(1,6) d(1) len by (simp_all add: alive_def)
  have e: "combat_resolver FIXED_DT t alive s = fold (unit_turn FIXED_DT t alive) post ?own"
    by (simp add: alive_def mid_def resolver_split)
  have st: "stats_unchanged (units ?own ! i) (units (combat_resolver FIXED_DT t alive s) ! i)"
    using turns_frame [OF po al, of FIXED_DT t] i len by (simp add: e)
  show "steps_left (units (combat_resolver FIXED_DT t alive s) ! i) =
           steps_left (move_toward_origin (units s ! i) FIXED_DT)"
  proof (rule steps_left_cong)
    show "x (units (combat_resolver FIXED_DT t alive s) ! i) =
          x (move_toward_origin (units s ! i) FIXED_DT)"
      using d(6) mc(1) by (simp add: oi)
    show "y (units (combat_resolver FIXED_DT t alive s) ! i) =
          y (move_toward_origin (units s ! i) FIXED_DT)"
      using d(7) mc(2) by (simp add: oi)
    show "move_speed (units (combat_resolver FIXED_DT t alive s) ! i) =
          move_speed (move_toward_origin (units s ! i) FIXED_DT)"
      using st ms by (simp add: oi stats_unchanged_def move_toward_origin_fields)
  qed
qed

lemma enemy_exists:
  assumes cont: "\<not> card (team_name ` {u \<in> set us. is_alive u}) \<le> 1"
  shows "\<exists>k\<in>set (alive_snapshot us). team_name (us ! k) \<noteq> c"
proof (rule ccontr)
  assume "\<not> (\<exists>k\<in>set (alive_snapshot us). team_name (us ! k) \<noteq> c)"
  then have all: "\<forall>k. k < length us \<and> is_alive (us ! k) \<longrightarrow> team_name (us ! k) = c"
    by (simp add: alive_snapshot_set)
  have "team_name ` {u \<in> set us. is_alive u} \<subseteq> {c}"
  proof
    fix a assume "a \<in> team_name ` {u \<in> set us. is_alive u}"
    then obtain u where u: "u \<in> set us" "is_alive u" "a = team_name u" by auto
    from u(1) obtain k where "k < length us" "us ! k = u" by (auto simp: in_set_conv_nth)
    with all u show "a \<in> {c}" by auto
  qed
  then have "card (team_name ` {u \<in> set us. is_alive u}) \<le> card {c}"
    by (intro card_mono) simp_all
  with cont show False by simp
qed

text \<open>A tick that invokes the resolver lowers the progress in the lexicographic order.\<close>

lemma tick_progress:
  assumes ready: "battle_ready \<delta> (units s)" and reach: "long_reach (units s)"
    and cont: "\<not> card (team_name ` {u \<in> set (units s). is_alive u}) \<le> 1"
  shows "(progress \<delta> (tick s), progress \<delta> s) \<in> less_than <*lex*> less_than <*lex*> less_than"
proof -
  let ?n = "length (units s)"
  let ?f = "frame_counter s"
  let ?t = "real ?f * FIXED_DT"
  let ?s1 = "s\<lparr>frame_counter := Suc ?f\<rparr>"
  let ?alive = "alive_snapshot (units s)"
  let ?e = "combat_resolver FIXED_DT ?t ?alive ?s1"
  have e: "tick s = ?e"
    using tick_continues [OF cont] by simp
  have al: "set ?alive \<subseteq> {..<length (units ?s1)}" using snapshot_indices [of "units s"] by simp
  have ready1: "battle_ready \<delta> (units ?s1)" using ready by simp
  note eff = turns_effect [OF al al ready1, of ?t, folded combat_resolver_def]
  have len: "length (units ?e) = ?n" using eff(1) by simp
  have fc: "frame_counter ?e = Suc ?f"
    using turns_frame [OF al al, of FIXED_DT ?t] by (simp add: combat_resolver_def)
  have st: "stats_unchanged (units s ! i) (units ?e ! i)" if "i < ?n" for i
    using eff(2) that by (simp add: list_all2_conv_all_nth)
  have prog_e: "progress \<delta> ?e =
     (\<Sum>i<?n. hits_left \<delta> (units ?e ! i), \<Sum>i<?n. wait_left (Suc ?f) (units ?e ! i),
      \<Sum>i<?n. steps_left (units ?e ! i))"
    by (simp add: progress_def len fc)
  have prog_s: "progress \<delta> s =
     (\<Sum>i<?n. hits_left \<delta> (units s ! i), \<Sum>i<?n. wait_left ?f (units s ! i),
      \<Sum>i<?n. steps_left (units s ! i))"
    by (simp add: progress_def)
  from resolver_hits [OF ready1, of ?t]
  have "(\<Sum>i<?n. hits_left \<delta> (units ?e ! i)) < (\<Sum>i<?n. hits_left \<delta> (units s ! i)) \<or>
         (\<forall>i<?n. health (units ?e ! i) = health (units s ! i) \<and>
            last_attack_time (units ?e ! i) = last_attack_time (units s ! i))"
    by simp
  then have "(progress \<delta> ?e, progress \<delta> s) \<in> less_than <*lex*> less_than <*lex*> less_than"
  proof
    assume "(\<Sum>i<?n. hits_left \<delta> (units ?e ! i)) < (\<Sum>i<?n. hits_left \<delta> (units s ! i))"
    then show ?thesis by (simp add: prog_e prog_s)
  next
    assume N: "\<forall>i<?n. health (units ?e ! i) = health (units s ! i) \<and>
            last_attack_time (units ?e ! i) = last_attack_time (units s ! i)"
    have hits: "(\<Sum>i<?n. hits_left \<delta> (units ?e ! i)) = (\<Sum>i<?n. hits_left \<delta> (units s ! i))"
      by (rule sum.cong) (use N in \<open>simp_all add: hits_left_def\<close>)
    have wle: "wait_left (Suc ?f) (units ?e ! i) \<le> wait_left ?f (units s ! i)" if "i < ?n" for i
      using N st [OF that] that by (intro wait_left_Suc(1)) (simp_all add: stats_unchanged_def)
    show ?thesis
    proof (cases "\<exists>i<?n. 0 < wait_left ?f (units s ! i)")
      case True
      then obtain i where i: "i < ?n" "0 < wait_left ?f (units s ! i)" by blast
      have "wait_left (Suc ?f) (units ?e ! i) < wait_left ?f (units s ! i)"
        using N st [OF i(1)] i by (intro wait_left_Suc(2)) (simp_all add: stats_unchanged_def)
      with i(1) have "\<exists>i\<in>{..<?n}. wait_left (Suc ?f) (units ?e ! i) < wait_left ?f (units s ! i)"
        by blast
      then have "(\<Sum>i<?n. wait_left (Suc ?f) (units ?e ! i)) < (\<Sum>i<?n. wait_left ?f (units s ! i))"
        by (intro sum_strict_mono_ex1) (use wle in simp_all)
      then show ?thesis by (simp add: prog_e prog_s hits)
    next
      case False
      then have w0: "wait_left ?f (units s ! i) = 0" if "i < ?n" for i
        using that by simp
      have "wait_left (Suc ?f) (units ?e ! i) = wait_left ?f (units s ! i)" if "i < ?n" for i
        using wle [OF that] w0 [OF that] by simp
      then have waits: "(\<Sum>i<?n. wait_left (Suc ?f) (units ?e ! i)) = (\<Sum>i<?n. wait_left ?f (units s ! i))"
        by (intro sum.cong) simp_all
      have elapsed: "?t - last_attack_time (units s ! i) \<ge> weapon_cooldown (units s ! i)"
        if "i < ?n" for i
        by (rule wait_left_elapsed [OF w0 [OF that]])
      have quiet: "\<forall>j<length (units ?s1).
          health (units (combat_resolver FIXED_DT ?t ?alive ?s1) ! j) = health (units ?s1 ! j)"
        using N by simp
      have sle: "steps_left (units ?e ! i) \<le> steps_left (units s ! i)" if "i < ?n" for i
        using eff(4) that by simp
      have "\<exists>i\<in>set ?alive. \<not> in_box (units s ! i)"
      proof (rule ccontr)
        assume "\<not> (\<exists>i\<in>set ?alive. \<not> in_box (units s ! i))"
        then have box: "in_box (units s ! i)" if "i \<in> set ?alive" for i
          using that by blast
        from enemy_exists [OF cont] have "?alive \<noteq> []" by auto
        then obtain i post where snap: "?alive = [] @ i # post"
          by (cases ?alive) auto
        have snap1: "alive_snapshot (units ?s1) = [] @ i # post" using snap by simp
        from enemy_exists [OF cont, of "team_name (units s ! i)"]
        obtain k where k: "k \<in> set ?alive" "team_name (units s ! k) \<noteq> team_name (units s ! i)"
          by blast
        have iin: "i \<in> set ?alive" "i < ?n"
          using snap snapshot_indices [of "units s"] by auto
        have el: "?t - last_attack_time (units ?s1 ! i) \<ge> weapon_cooldown (units ?s1 ! i)"
          using elapsed [OF iin(2)] by simp
        have q: "\<forall>j<length (units ?s1).
          health (units (combat_resolver FIXED_DT ?t ([] @ i # post) ?s1) ! j) = health (units ?s1 ! j)"
          using quiet snap by simp
        from quiet_tick_moves(2) [OF ready1 snap1 q el] k snap
        have "distance_to (units s ! i) (units s ! k) > weapon_range (units s ! i)"
          by auto
        moreover have "distance_to (units s ! i) (units s ! k) < 3 / 10 ^ 6"
          by (rule box_distance [OF box [OF iin(1)] box [OF k(1)]])
        moreover have "3 / 10 ^ 6 \<le> weapon_range (units s ! i)"
          using reach nth_mem [OF iin(2)] by (simp add: long_reach_def)
        ultimately show False by simp
      qed
      then obtain i where i: "i \<in> set ?alive" "\<not> in_box (units s ! i)" by blast
      from split_list [OF i(1)] obtain pre post where snap: "?alive = pre @ i # post" by blast
      have snap1: "alive_snapshot (units ?s1) = pre @ i # post" using snap by simp
      have iin: "i < ?n" using i(1) snapshot_indices [of "units s"] by auto
      have el: "?t - last_attack_time (units ?s1 ! i) \<ge> weapon_cooldown (units ?s1 ! i)"
        using elapsed [OF iin] by simp
      have q: "\<forall>j<length (units ?s1).
          health (units (combat_resolver FIXED_DT ?t (pre @ i # post) ?s1) ! j) = health (units ?s1 ! j)"
        using quiet snap by simp
      from quiet_tick_moves(1) [OF ready1 snap1 q el]
      have "steps_left (units ?e ! i) = steps_left (move_toward_origin (units s ! i) FIXED_DT)"
        by (simp add: snap)
      also have "\<dots> < steps_left (units s ! i)"
        by (rule steps_left_move(2) [OF battle_ready_nth(3) [OF ready iin] i(2)])
      finally have "\<exists>i\<in>{..<?n}. steps_left (units ?e ! i) < steps_left (units s ! i)"
        using iin by blast
      then have "(\<Sum>i<?n. steps_left (units ?e ! i)) < (\<Sum>i<?n. steps_left (units s ! i))"
        by (intro sum_strict_mono_ex1) (use sle in simp_all)
      then show ?thesis by (simp add: prog_e prog_s hits waits)
    qed
  qed
  then show ?thesis by (simp only: e)
qed

lemma long_reach_static:
  assumes "list_all2 stats_unchanged us vs" "long_reach us"
  shows "long_reach vs"
proof -
  have "3 / 10 ^ 6 \<le> weapon_range v" if "v \<in> set vs" for v
  proof -
    from that obtain i where i: "i < length vs" "vs ! i = v" by (auto simp: in_set_conv_nth)
    with assms(1) have "i < length us" "stats_unchanged (us ! i) v"
      by (auto simp: list_all2_conv_all_nth)
    with assms(2) nth_mem [of i us] show ?thesis
      by (simp add: stats_unchanged_def long_reach_def)
  qed
  then show ?thesis by (simp add: long_reach_def)
qed

lemma tick_keeps_running:
  assumes "\<not> card (team_name ` {u \<in> set (units s). is_alive u}) \<le> 1"
  shows "simulation_running (tick s) = simulation_running s"
proof -
  let ?s1 = "s\<lparr>frame_counter := frame_counter s + 1\<rparr>"
  have al: "set (alive_snapshot (units s)) \<subseteq> {..<length (units ?s1)}"
    using snapshot_indices [of "units s"] by simp
  from turns_frame [OF al al, where dt = FIXED_DT and t = "real (frame_counter s) * FIXED_DT"]
  show ?thesis
    by (simp add: tick_continues [OF assms] combat_resolver_def)
qed

text \<open>
  In exact arithmetic the loop ends from every running state of units that are ready and
  reach far.
\<close>

lemma main_loop_terminates:
  assumes "battle_ready \<delta> (units s)" "long_reach (units s)" "simulation_running s"
  shows "\<exists>s'. main_loop s = Some s' \<and> \<not> simulation_running s'"
proof -
  let ?R = "inv_image (less_than <*lex*> less_than <*lex*> less_than) (progress \<delta>)"
  have "wf ?R" by (intro wf_inv_image wf_lex_prod wf_less_than)
  then have "battle_ready \<delta> (units s) \<longrightarrow> long_reach (units s) \<longrightarrow> simulation_running s \<longrightarrow>
      (\<exists>s'. main_loop s = Some s' \<and> \<not> simulation_running s')"
  proof (induction s rule: wf_induct_rule)
    case (less s)
    show ?case
    proof (intro impI)
      assume ready: "battle_ready \<delta> (units s)" and reach: "long_reach (units s)"
        and run: "simulation_running s"
      show "\<exists>s'. main_loop s = Some s' \<and> \<not> simulation_running s'"
      proof (cases rule: tick_cases [of s])
        case terminal
        have "main_loop s = Some (tick s)"
          using run terminal(4) by (subst main_loop.simps) (simp add: Let_def)
        with terminal(4) show ?thesis by blast
      next
        case continues
        have run': "simulation_running (tick s)"
          using tick_keeps_running [OF continues(1)] run by simp
        have "(tick s, s) \<in> ?R"
          using tick_progress [OF ready reach continues(1)] by simp
        moreover have "battle_ready \<delta> (units (tick s))"
          by (rule battle_ready_static [OF tick_static ready])
        moreover have "long_reach (units (tick s))"
          by (rule long_reach_static [OF tick_static reach])
        ultimately obtain s' where s': "main_loop (tick s) = Some s'" "\<not> simulation_running s'"
          using less run' by blast
        have "main_loop s = main_loop (tick s)"
          using run run' by (subst main_loop.simps) (simp add: Let_def)
        with s' show ?thesis by simp
      qed
    qed
  qed
  with assms show ?thesis by blast
qed

text \<open>Health only falls, so a team without living units stays without.\<close>

lemma tick_health:
  assumes ready: "battle_ready \<delta> (units s)" and i: "i < length (units s)"
  shows "health (units (tick s) ! i) \<le> health (units s ! i)"
proof (cases rule: tick_cases [of s])
  case terminal
  then show ?thesis by simp
next
  case continues
  let ?s1 = "s\<lparr>frame_counter := frame_counter s + 1\<rparr>"
  have al: "set (alive_snapshot (units s)) \<subseteq> {..<length (units ?s1)}"
    using snapshot_indices [of "units s"] by simp
  have r: "battle_ready \<delta> (units ?s1)" using ready by simp
  from turns_effect(3) [OF al al r, of "real (frame_counter s) * FIXED_DT"] i
  show ?thesis by (simp add: continues(2) combat_resolver_def)
qed

lemma tick_teams_alive:
  assumes ready: "battle_ready \<delta> (units s)"
  shows "teams_alive (units (tick s)) \<le> teams_alive (units s)"
proof -
  have st: "list_all2 stats_unchanged (units s) (units (tick s))" by (rule tick_static)
  then have len: "length (units (tick s)) = length (units s)"
    by (simp add: list_all2_lengthD)
  have "team_name ` {u \<in> set (units (tick s)). is_alive u} \<subseteq>
        team_name ` {u \<in> set (units s). is_alive u}"
  proof
    fix a assume "a \<in> team_name ` {u \<in> set (units (tick s)). is_alive u}"
    then obtain u where u: "u \<in> set (units (tick s))" "is_alive u" "a = team_name u" by auto
    from u(1) obtain i where i: "i < length (units (tick s))" "units (tick s) ! i = u"
      by (auto simp: in_set_conv_nth)
    have i': "i < length (units s)" using i(1) len by simp
    have "health u \<le> health (units s ! i)"
      using tick_health [OF ready i'] i(2) by simp
    then have "is_alive (units s ! i)" using u(2) by (simp add: is_alive_def)
    moreover have "stats_unchanged (units s ! i) (units (tick s) ! i)"
      using st i' by (simp add: list_all2_conv_all_nth)
    then have "team_name (units s ! i) = a"
      using i(2) u(3) by (simp add: stats_unchanged_def)
    ultimately show "a \<in> team_name ` {u \<in> set (units s). is_alive u}"
      using nth_mem [OF i'] by force
  qed
  then show ?thesis
    unfolding teams_alive_def by (intro card_mono) simp_all
qed

lemma run_ticks_Suc: "run_ticks (Suc n) s =
    (if simulation_running (run_ticks n s) then tick (run_ticks n s) else run_ticks n s)"
proof (induction n arbitrary: s)
  case 0
  then show ?case by simp
next
  case (Suc n)
  show ?case
  proof (cases "simulation_running s")
    case True
    then show ?thesis using Suc.IH [of "tick s"] by simp
  next
    case False
    then show ?thesis by simp
  qed
qed

subsection \<open>The teams alive and the end of the loop\<close>

lemma battle_ready_exists:
  assumes "\<forall>u\<in>set us. 0 < weapon_damage u \<and> 0 < move_speed u"
  shows "\<exists>\<delta>. battle_ready \<delta> us"
proof (cases "us = []")
  case True
  then have "battle_ready 1 us" by (simp add: battle_ready_def)
  then show ?thesis ..
next
  case False
  let ?D = "weapon_damage ` set us"
  have fin: "finite ?D" and ne: "?D \<noteq> {}" using False by simp_all
  have "Min ?D \<in> ?D" by (rule Min_in [OF fin ne])
  then have pos: "0 < Min ?D" using assms by auto
  have "Min ?D \<le> weapon_damage u" if "u \<in> set us" for u
    using that fin by (intro Min_le) simp_all
  with pos assms have "battle_ready (Min ?D) us" by (simp add: battle_ready_def)
  then show ?thesis ..
qed

text \<open>
  C8, as amended. For a configuration that loads to units of positive weapon damage and
  positive speed, the number of teams with a living unit never grows from one iteration of
  the loop to the next. That the loop ends after finitely many ticks is not guaranteed.
\<close>

theorem teams_alive_never_grows:
  assumes load: "load data = Inr (unit_types, us)"
    and pos: "\<forall>u\<in>set us. 0 < weapon_damage u \<and> 0 < move_speed u"
  shows "teams_alive (units (run_ticks (Suc n) (initial_state us))) \<le>
         teams_alive (units (run_ticks n (initial_state us)))"
proof -
  let ?s0 = "initial_state us"
  from battle_ready_exists [OF pos] obtain \<delta> where ready: "battle_ready \<delta> us" ..
  have ready0: "battle_ready \<delta> (units ?s0)" using ready by (simp add: initial_state_def)
  have "battle_ready \<delta> (units (run_ticks n ?s0))"
    by (rule battle_ready_static [OF run_ticks_static ready0])
  from tick_teams_alive [OF this] show ?thesis
    by (simp only: run_ticks_Suc) simp
qed

text \<open>The duel: two teams live before its first tick and one after it.\<close>

theorem teams_alive_never_grows_witness:
  "teams_alive (units (run_ticks 0 (initial_state duel_units))) = 2 \<and>
   teams_alive (units (run_ticks (Suc 0) (initial_state duel_units))) \<le>
     teams_alive (units (run_ticks 0 (initial_state duel_units)))"
proof -
  have pos: "\<forall>u\<in>set duel_units. 0 < weapon_damage u \<and> 0 < move_speed u"
    by (simp add: duel_units_def)
  have "{u \<in> set duel_units. is_alive u} = set duel_units"
    by (auto simp: duel_units_def is_alive_def)
  then have "teams_alive (units (run_ticks 0 (initial_state duel_units))) = 2"
    by (simp add: teams_alive_def initial_state_def) (simp add: duel_units_def)
  with teams_alive_never_grows [OF duel_load pos, of 0] show ?thesis by (intro conjI)
qed

text \<open>
  The stuck configuration loads; a tick from any of its states changes only the frame
  counter, since each unit is inside the square and out of range of the other.
\<close>

lemma stuck_load:
  "load stuck_config =
     Inr ([''sniper'' \<mapsto> \<lparr>max_health = 10, ut_move_speed = 1, ut_weapon_range = 1 / 10 ^ 7,
                             ut_weapon_damage = 10, ut_weapon_cooldown = 1\<rparr>],
          stuck_units)"
  by (simp add: stuck_config_def stuck_units_def sniper_stats_def load_defs)

lemma stuck_tick: "tick (stuck_state n) = stuck_state (Suc n)"
  by (simp add: stuck_state_def stuck_units_def tick_def alive_snapshot_def is_alive_def
      combat_resolver_def unit_turn_def distance_to_def upt_conv_Cons hypot_zero_right
      move_toward_origin_def Let_def)

text \<open>So the loop never returns from any of these states.\<close>

lemma stuck_never_returns: "main_loop (stuck_state n) = None"
proof -
  have "\<forall>n. s \<noteq> stuck_state n" if "main_loop s = Some r" for s r
  proof (rule main_loop.raw_induct [where P = "\<lambda>s r. \<forall>n. s \<noteq> stuck_state n", OF _ that])
    fix f :: "sim_state \<Rightarrow> sim_state option" and s r
    assume IH: "\<And>c y. f c = Some y \<Longrightarrow> \<forall>n. c \<noteq> stuck_state n"
      and eq: "(if simulation_running s
         then let s' = tick s in if \<not> simulation_running s' then Some s' else f s'
         else Some s) = Some r"
    show "\<forall>n. s \<noteq> stuck_state n"
    proof (intro allI notI)
      fix n assume s: "s = stuck_state n"
      have run: "simulation_running (stuck_state n)" "simulation_running (stuck_state (Suc n))"
        by (simp_all add: stuck_state_def)
      from eq have "f (stuck_state (Suc n)) = Some r"
        using run by (simp add: s stuck_tick Let_def)
      from IH [OF this] show False by blast
    qed
  qed
  then show ?thesis
    by (cases "main_loop (stuck_state n)") auto
qed

text \<open>
  C8 as stated fails for the stuck configuration: it is valid, with two teams and all
  stats positive, and its loop never reaches the terminated state.
\<close>

theorem stuck_counterexample:
  "load stuck_config =
     Inr ([''sniper'' \<mapsto> \<lparr>max_health = 10, ut_move_speed = 1, ut_weapon_range = 1 / 10 ^ 7,
                             ut_weapon_damage = 10, ut_weapon_cooldown = 1\<rparr>],
          stuck_units) \<and>
   map team_name stuck_units = [''red'', ''blue''] \<and>
   main_loop (initial_state stuck_units) = None \<and>
   main stuck_config = None"
proof -
  have init: "initial_state stuck_units = stuck_state 0"
    by (simp add: initial_state_def stuck_state_def)
  have ext: "world_extent stuck_units \<noteq> 0"
    by (simp add: world_extent_def stuck_units_def)
  have "main stuck_config = None"
    using ext by (simp add: main_def stuck_load init stuck_never_returns)
  then show ?thesis
    by (simp add: stuck_load init stuck_never_returns) (simp add: stuck_units_def)
qed

end
